(* ===== verification/Prelude.thy ===== *)
theory Prelude
  imports Main "HOL-Library.List_Lexorder" "HOL-Library.Char_ord" "HOL-Library.Word"
    "HOL-Library.Multiset"
begin

text \<open>
  What every theory of the development shares: the result type of a fallible Go call, Go
  maps with string keys as key-sorted association lists, the stable insertion sort that
  stands for \<open>sort.SliceStable\<close>, and the collections of simplification rules the
  component theories fill.
\<close>

named_theorems go_num "evaluation of machine numbers on concrete arguments"
named_theorems lex_simps "unfolding rules of the expression lexer"
named_theorems parse_simps "unfolding rules of the parser state operations"
named_theorems value_simps "rules on evaluator values"
named_theorems budget_simps "unfolding rules of the shared budget"

section \<open>Fallible calls\<close>

text \<open>A Go function returning \<open>(T, error)\<close>: \<open>Inl\<close> carries the error.\<close>

type_synonym ('e, 'a) result = "'e + 'a"

fun res_bind :: "('e, 'a) result \<Rightarrow> ('a \<Rightarrow> ('e, 'b) result) \<Rightarrow> ('e, 'b) result" where
  "res_bind (Inl e) f = Inl e"
| "res_bind (Inr x) f = f x"

lemma res_bind_Inr [simp]:
  "res_bind r f = Inr y \<longleftrightarrow> (\<exists>x. r = Inr x \<and> f x = Inr y)"
  by (cases r) auto

lemma res_bind_Inl [simp]:
  "res_bind r f = Inl e \<longleftrightarrow> r = Inl e \<or> (\<exists>x. r = Inr x \<and> f x = Inl e)"
  by (cases r) auto

section \<open>Go maps with string keys\<close>

text \<open>
  A \<open>map[string]T\<close> has no order of its own and every use the modelled code makes of its
  order sorts the keys first, so a map is its key-sorted association list: two maps with the
  same entries are the same list. \<open>gmap_put\<close> is \<open>m[k] = v\<close>, \<open>gmap_get\<close> the two-valued read.
\<close>

type_synonym 'v gmap = "(string \<times> 'v) list"

fun gmap_put :: "string \<Rightarrow> 'v \<Rightarrow> 'v gmap \<Rightarrow> 'v gmap" where
  "gmap_put k v [] = [(k, v)]"
| "gmap_put k v ((k', v') # m) =
     (if k < k' then (k, v) # (k', v') # m
      else if k = k' then (k, v) # m
      else (k', v') # gmap_put k v m)"

definition gmap_get :: "'v gmap \<Rightarrow> string \<Rightarrow> 'v option" where
  "gmap_get m k = map_of m k"

definition gmap_del :: "string \<Rightarrow> 'v gmap \<Rightarrow> 'v gmap" where
  "gmap_del k m = filter (\<lambda>e. fst e \<noteq> k) m"

definition gmap_ok :: "'v gmap \<Rightarrow> bool" where
  "gmap_ok m \<longleftrightarrow> sorted_wrt (<) (map fst m)"

lemma gmap_ok_Nil [simp]: "gmap_ok []"
  by (simp add: gmap_ok_def)

lemma set_gmap_put: "fst ` set (gmap_put k v m) = insert k (fst ` set m)"
  by (induction k v m rule: gmap_put.induct) auto

lemma gmap_get_put: "gmap_ok m \<Longrightarrow> gmap_get (gmap_put k v m) k' = (if k' = k then Some v else gmap_get m k')"
  by (induction k v m rule: gmap_put.induct)
    (auto simp: gmap_get_def gmap_ok_def map_of_eq_None_iff)

lemma gmap_ok_put: "gmap_ok m \<Longrightarrow> gmap_ok (gmap_put k v m)"
proof (induction k v m rule: gmap_put.induct)
  case (1 k v)
  then show ?case by (simp add: gmap_ok_def)
next
  case (2 k v k' v' m)
  have keys: "set (map fst (gmap_put k v m)) = insert k (set (map fst m))"
    using set_gmap_put [of k v m] by simp
  show ?case
  proof (cases "k < k'")
    case True
    with 2 show ?thesis by (auto simp: gmap_ok_def)
  next
    case not_less: False
    show ?thesis
    proof (cases "k = k'")
      case True
      with 2 not_less show ?thesis by (auto simp: gmap_ok_def)
    next
      case False
      with 2 not_less have "gmap_ok (gmap_put k v m)" "k' < k" "\<forall>x \<in> set (map fst m). k' < x"
        by (auto simp: gmap_ok_def)
      with False not_less keys show ?thesis by (auto simp: gmap_ok_def)
    qed
  qed
qed

section \<open>Stable sorting\<close>

text \<open>
  \<open>sort.SliceStable(xs, less)\<close>: a stable sort by a strict order. Insertion sort is one such
  sort, and a stable sort by a strict weak order has one possible result.
\<close>

fun insert_stable :: "('a \<Rightarrow> 'a \<Rightarrow> bool) \<Rightarrow> 'a \<Rightarrow> 'a list \<Rightarrow> 'a list" where
  "insert_stable lt x [] = [x]"
| "insert_stable lt x (y # ys) = (if lt y x then y # insert_stable lt x ys else x # y # ys)"

fun sort_stable :: "('a \<Rightarrow> 'a \<Rightarrow> bool) \<Rightarrow> 'a list \<Rightarrow> 'a list" where
  "sort_stable lt [] = []"
| "sort_stable lt (x # xs) = insert_stable lt x (sort_stable lt xs)"

lemma mset_insert_stable: "mset (insert_stable lt x xs) = add_mset x (mset xs)"
  by (induction xs) auto

lemma mset_sort_stable [simp]: "mset (sort_stable lt xs) = mset xs"
  by (induction xs) (auto simp: mset_insert_stable)

lemma length_sort_stable [simp]: "length (sort_stable lt xs) = length xs"
  by (metis mset_sort_stable size_mset)

lemma set_sort_stable [simp]: "set (sort_stable lt xs) = set xs"
  by (metis mset_sort_stable set_mset_mset)

lemma set_insert_stable [simp]: "set (insert_stable lt x xs) = insert x (set xs)"
  by (metis mset_insert_stable set_mset_add_mset_insert set_mset_mset)

text \<open>
  Sorted: no later element is strictly below an earlier one. The order has to be asymmetric
  and its complement transitive (a strict weak order).
\<close>

lemma sorted_insert_stable:
  assumes asym: "\<And>x y. lt x y \<Longrightarrow> \<not> lt y x"
    and trans: "\<And>x y z. \<not> lt y x \<Longrightarrow> \<not> lt z y \<Longrightarrow> \<not> lt z x"
    and sorted: "sorted_wrt (\<lambda>x y. \<not> lt y x) xs"
  shows "sorted_wrt (\<lambda>x y. \<not> lt y x) (insert_stable lt a xs)"
  using sorted
proof (induction xs)
  case Nil
  then show ?case by simp
next
  case (Cons y ys)
  from Cons.prems have y: "\<forall>z \<in> set ys. \<not> lt z y" by simp
  show ?case
  proof (cases "lt y a")
    case True
    then have "\<not> lt a y" by (rule asym)
    with True Cons y show ?thesis by simp
  next
    case False
    then have "\<forall>z \<in> set ys. \<not> lt z a"
      using y trans by blast
    with False Cons.prems show ?thesis by simp
  qed
qed

lemma sorted_sort_stable:
  assumes "\<And>x y. lt x y \<Longrightarrow> \<not> lt y x"
    and "\<And>x y z. \<not> lt y x \<Longrightarrow> \<not> lt z y \<Longrightarrow> \<not> lt z x"
  shows "sorted_wrt (\<lambda>x y. \<not> lt y x) (sort_stable lt xs)"
proof (induction xs)
  case Nil
  show ?case by simp
next
  case (Cons x xs)
  then show ?case using sorted_insert_stable [of lt, OF assms] by simp
qed

text \<open>Stability: the elements equivalent to a given one keep their order.\<close>

lemma filter_insert_stable_out:
  "\<not> P a \<Longrightarrow> filter P (insert_stable lt a xs) = filter P xs"
  by (induction xs) auto

end
