(* ===== verification/GoFloat.thy ===== *)
theory GoFloat
  imports Prelude Complex_Main
begin

text \<open>
  Go's \<open>float64\<close> (IEEE 754 binary64) and \<open>float32\<close>, executable: a finite value is its exact
  rational with its sign bit (the sign matters for a zero only), and every operation computes
  the exact result and rounds it to nearest, ties to even. The expression evaluator's numbers
  and the run budget's costs are \<open>float64\<close> in the code.
\<close>

datatype f64 = FNaN | FInf bool | FFin bool rat

section \<open>Floors of rational literals\<close>

lemma floor_rat_quotient: "\<lfloor>(of_int m :: rat) / of_int n\<rfloor> = m div n"
  by (rule floor_divide_of_int_eq)

lemma floor_rat_literal [go_num]:
  "\<lfloor>(numeral a :: rat) / numeral b\<rfloor> = numeral a div numeral b"
  "\<lfloor>- (numeral a / numeral b :: rat)\<rfloor> = (- numeral a) div numeral b"
  "\<lfloor>(1 :: rat) / numeral b\<rfloor> = 1 div numeral b"
  "\<lfloor>- (1 / numeral b :: rat)\<rfloor> = (- 1) div numeral b"
  using floor_rat_quotient [of "numeral a" "numeral b"]
    floor_rat_quotient [of "- numeral a" "numeral b"]
    floor_rat_quotient [of 1 "numeral b"] floor_rat_quotient [of "- 1" "numeral b"]
  by simp_all

lemma ceiling_rat_literal [go_num]:
  "\<lceil>(numeral a :: rat) / numeral b\<rceil> = - ((- numeral a) div numeral b)"
  "\<lceil>- (numeral a / numeral b :: rat)\<rceil> = - (numeral a div numeral b)"
  by (simp_all add: ceiling_def floor_rat_literal)

section \<open>Rounding\<close>

record float_format =
  prec :: int        \<comment> \<open>bits of the significand\<close>
  emin :: int        \<comment> \<open>exponent of the least subnormal\<close>
  emaxp :: int       \<comment> \<open>finite values are below \<open>2 ^ emaxp\<close>\<close>

definition F64 :: float_format where
  "F64 = \<lparr>prec = 53, emin = -1074, emaxp = 1024\<rparr>"

definition F32 :: float_format where
  "F32 = \<lparr>prec = 24, emin = -149, emaxp = 128\<rparr>"

definition pow2 :: "int \<Rightarrow> rat" where
  "pow2 e = (if 0 \<le> e then 2 ^ nat e else 1 / 2 ^ nat (- e))"

text \<open>The exponent \<open>e\<close> with \<open>2 ^ e \<le> q < 2 ^ (e + 1)\<close>, for a positive \<open>q\<close>.\<close>

function ilog2 :: "rat \<Rightarrow> int" where
  "ilog2 q = (if 2 \<le> q then ilog2 (q / 2) + 1
              else if 0 < q \<and> q < 1 then ilog2 (2 * q) - 1 else 0)"
  by pat_completeness auto
termination
proof (relation "measure (\<lambda>q::rat. if 2 \<le> q then nat \<lceil>q\<rceil> else if 0 < q \<and> q < 1 then nat \<lceil>1 / q\<rceil> else 0)")
  fix q :: rat
  assume q: "2 \<le> q"
  have "\<lceil>q / 2\<rceil> \<le> \<lceil>q - 1\<rceil>" using q by (intro ceiling_mono) simp
  moreover have "2 \<le> \<lceil>q\<rceil>" using q by linarith
  ultimately show "(q / 2, q) \<in> measure (\<lambda>q::rat. if 2 \<le> q then nat \<lceil>q\<rceil> else if 0 < q \<and> q < 1 then nat \<lceil>1 / q\<rceil> else 0)"
    using q by auto
next
  fix q :: rat
  assume q: "\<not> 2 \<le> q" "0 < q \<and> q < 1"
  have one: "1 < 1 / q" using q by simp
  then have pos: "2 \<le> \<lceil>1 / q\<rceil>" by linarith
  have "\<lceil>1 / (2 * q)\<rceil> < \<lceil>1 / q\<rceil>"
  proof (cases "1 / q \<le> 2")
    case True
    then have "1 / (2 * q) \<le> 1" by simp
    then have "\<lceil>1 / (2 * q)\<rceil> \<le> 1" by linarith
    with pos show ?thesis by linarith
  next
    case False
    then have "1 / (2 * q) \<le> 1 / q - 1" by simp
    then have "\<lceil>1 / (2 * q)\<rceil> \<le> \<lceil>1 / q - 1\<rceil>" by (rule ceiling_mono)
    then show ?thesis by simp
  qed
  with q pos show "(2 * q, q) \<in> measure (\<lambda>q::rat. if 2 \<le> q then nat \<lceil>q\<rceil> else if 0 < q \<and> q < 1 then nat \<lceil>1 / q\<rceil> else 0)"
    by auto
qed simp

declare ilog2.simps [simp del]

lemma ilog2_eval [go_num]:
  "2 \<le> q \<Longrightarrow> ilog2 q = ilog2 (q / 2) + 1"
  "0 < q \<Longrightarrow> q < 1 \<Longrightarrow> ilog2 q = ilog2 (2 * q) - 1"
  "1 \<le> q \<Longrightarrow> q < 2 \<Longrightarrow> ilog2 q = 0"
  by (simp_all add: ilog2.simps [of q])

definition round_half_even :: "rat \<Rightarrow> int" where
  "round_half_even q =
     (let f = \<lfloor>q\<rfloor>; r = q - of_int f
      in if r < 1 / 2 then f else if 1 / 2 < r then f + 1
         else if even f then f else f + 1)"

text \<open>\<open>s\<close> is the sign a zero result takes.\<close>

definition fround :: "float_format \<Rightarrow> bool \<Rightarrow> rat \<Rightarrow> f64" where
  "fround F s q =
     (if q = 0 then FFin s 0
      else let a = \<bar>q\<bar>;
               u = max (ilog2 a - (prec F - 1)) (emin F);
               v = of_int (round_half_even (a / pow2 u)) * pow2 u
           in if pow2 (emaxp F) \<le> v then FInf (q < 0)
              else FFin (q < 0) (if q < 0 then - v else v))"

section \<open>Arithmetic and comparison\<close>

definition f_of_rat :: "rat \<Rightarrow> f64" where
  "f_of_rat q = fround F64 False q"

definition f_of_int :: "int \<Rightarrow> f64" where
  "f_of_int n = f_of_rat (of_int n)"

fun f_neg :: "f64 \<Rightarrow> f64" where
  "f_neg FNaN = FNaN"
| "f_neg (FInf s) = FInf (\<not> s)"
| "f_neg (FFin s q) = FFin (\<not> s) (- q)"

fun f_add :: "f64 \<Rightarrow> f64 \<Rightarrow> f64" where
  "f_add (FFin s a) (FFin t b) = fround F64 (s \<and> t) (a + b)"
| "f_add (FInf s) (FInf t) = (if s = t then FInf s else FNaN)"
| "f_add (FInf s) (FFin _ _) = FInf s"
| "f_add (FFin _ _) (FInf t) = FInf t"
| "f_add FNaN _ = FNaN"
| "f_add _ FNaN = FNaN"

definition f_sub :: "f64 \<Rightarrow> f64 \<Rightarrow> f64" where
  "f_sub a b = f_add a (f_neg b)"

fun f_mul :: "f64 \<Rightarrow> f64 \<Rightarrow> f64" where
  "f_mul (FFin s a) (FFin t b) = fround F64 (s \<noteq> t) (a * b)"
| "f_mul (FInf s) (FInf t) = FInf (s \<noteq> t)"
| "f_mul (FInf s) (FFin t b) = (if b = 0 then FNaN else FInf (s \<noteq> t))"
| "f_mul (FFin s a) (FInf t) = (if a = 0 then FNaN else FInf (s \<noteq> t))"
| "f_mul FNaN _ = FNaN"
| "f_mul _ FNaN = FNaN"

fun f_div :: "f64 \<Rightarrow> f64 \<Rightarrow> f64" where
  "f_div (FFin s a) (FFin t b) =
     (if b = 0 then (if a = 0 then FNaN else FInf (s \<noteq> t)) else fround F64 (s \<noteq> t) (a / b))"
| "f_div (FInf s) (FInf t) = FNaN"
| "f_div (FInf s) (FFin t _) = FInf (s \<noteq> t)"
| "f_div (FFin s _) (FInf t) = FFin (s \<noteq> t) 0"
| "f_div FNaN _ = FNaN"
| "f_div _ FNaN = FNaN"

fun f_lt :: "f64 \<Rightarrow> f64 \<Rightarrow> bool" where
  "f_lt (FFin _ a) (FFin _ b) = (a < b)"
| "f_lt (FInf s) (FInf t) = (s \<and> \<not> t)"
| "f_lt (FInf s) (FFin _ _) = s"
| "f_lt (FFin _ _) (FInf t) = (\<not> t)"
| "f_lt FNaN _ = False"
| "f_lt _ FNaN = False"

fun f_eq :: "f64 \<Rightarrow> f64 \<Rightarrow> bool" where
  "f_eq (FFin _ a) (FFin _ b) = (a = b)"
| "f_eq (FInf s) (FInf t) = (s = t)"
| "f_eq _ _ = False"

definition f_le :: "f64 \<Rightarrow> f64 \<Rightarrow> bool" where
  "f_le a b \<longleftrightarrow> f_lt a b \<or> f_eq a b"

abbreviation f_ge :: "f64 \<Rightarrow> f64 \<Rightarrow> bool" where
  "f_ge a b \<equiv> f_le b a"

definition f_zero :: f64 where
  "f_zero = FFin False 0"

fun f_is_nan :: "f64 \<Rightarrow> bool" where
  "f_is_nan FNaN = True"
| "f_is_nan _ = False"

fun f_is_inf :: "f64 \<Rightarrow> bool" where
  "f_is_inf (FInf _) = True"
| "f_is_inf _ = False"

section \<open>Conversions\<close>

text \<open>
  \<open>int64(f)\<close> truncates towards zero. Out of range the Go specification leaves the result to
  the implementation; amd64 gives the least int64 for every such value and for a NaN, and the
  model takes that one.
\<close>

fun f_to_int64 :: "f64 \<Rightarrow> int" where
  "f_to_int64 (FFin _ q) =
     (let t = (if q < 0 then \<lceil>q\<rceil> else \<lfloor>q\<rfloor>)
      in if - (2 ^ 63) \<le> t \<and> t < 2 ^ 63 then t else - (2 ^ 63))"
| "f_to_int64 _ = - (2 ^ 63)"

text \<open>\<open>float32(n)\<close> and the widening of a float32 back to a float64 (exact).\<close>

definition f32_of_int :: "int \<Rightarrow> f64" where
  "f32_of_int n = fround F32 False (of_int n)"

text \<open>\<open>math.Floor\<close> and \<open>math.Round\<close> (half away from zero); the sign of a zero is kept.\<close>

fun f_floor :: "f64 \<Rightarrow> f64" where
  "f_floor (FFin s q) = FFin s (of_int \<lfloor>q\<rfloor>)"
| "f_floor x = x"

fun f_round :: "f64 \<Rightarrow> f64" where
  "f_round (FFin s q) =
     FFin s (if q < 0 then - of_int \<lfloor>- q + 1 / 2\<rfloor> else of_int \<lfloor>q + 1 / 2\<rfloor>)"
| "f_round x = x"

fun f_trunc :: "f64 \<Rightarrow> f64" where
  "f_trunc (FFin s q) = FFin s (of_int (if q < 0 then \<lceil>q\<rceil> else \<lfloor>q\<rfloor>))"
| "f_trunc x = x"

section \<open>Facts on rounding and order\<close>

lemmas float_eval = f_of_int_def f_of_rat_def f_zero_def f_sub_def f_le_def fround_def F64_def
  F32_def pow2_def round_half_even_def Let_def go_num

lemma f_lt_irrefl [simp]: "\<not> f_lt a a"
  by (cases a) auto

lemma f_lt_asym: "f_lt a b \<Longrightarrow> \<not> f_lt b a"
  by (cases a; cases b) auto

lemma f_lt_trans: "f_lt a b \<Longrightarrow> f_lt b c \<Longrightarrow> f_lt a c"
  by (cases a; cases b; cases c) auto

lemma f_eq_sym: "f_eq a b = f_eq b a"
  by (cases a; cases b) auto

lemma f_lt_not_eq: "f_lt a b \<Longrightarrow> \<not> f_eq a b"
  by (cases a; cases b) auto

text \<open>Without NaNs the order is total.\<close>

lemma f_lt_total: "\<not> f_is_nan a \<Longrightarrow> \<not> f_is_nan b \<Longrightarrow> f_lt a b \<or> f_eq a b \<or> f_lt b a"
  by (cases a; cases b) auto

lemma f_not_lt_trans:
  "\<not> f_is_nan a \<Longrightarrow> \<not> f_is_nan b \<Longrightarrow> \<not> f_is_nan c \<Longrightarrow> \<not> f_lt b a \<Longrightarrow> \<not> f_lt c b \<Longrightarrow> \<not> f_lt c a"
  by (cases a; cases b; cases c) auto

lemma fround_not_nan [simp]: "\<not> f_is_nan (fround F s q)"
  by (simp add: fround_def Let_def)

lemma f_of_int_not_nan [simp]: "\<not> f_is_nan (f_of_int n)"
  by (simp add: f_of_int_def f_of_rat_def)

end
