(* ===== verification/GoFormat.thy ===== *)
theory GoFormat
  imports GoFloat
begin

text \<open>
  The parts of \<open>strconv\<close> and \<open>fmt\<close> the modelled code calls on numbers: decimal rendering of
  integers, \<open>%v\<close> of a float (the shortest digits that read back as the same value), and the
  readings of a digit run by \<open>ParseInt\<close> and \<open>ParseFloat\<close>.
\<close>

section \<open>Decimal digits\<close>

definition digit_char :: "nat \<Rightarrow> char" where
  "digit_char d = char_of (d + 48)"

definition is_digit :: "char \<Rightarrow> bool" where
  "is_digit c \<longleftrightarrow> 48 \<le> (of_char c :: nat) \<and> (of_char c :: nat) \<le> 57"

definition digit_val :: "char \<Rightarrow> nat" where
  "digit_val c = of_char c - 48"

fun nat_str :: "nat \<Rightarrow> string" where
  "nat_str n = (if n < 10 then [digit_char n] else nat_str (n div 10) @ [digit_char (n mod 10)])"

declare nat_str.simps [simp del]

definition int_str :: "int \<Rightarrow> string" where
  "int_str n = (if n < 0 then CHR ''-'' # nat_str (nat (- n)) else nat_str (nat n))"

definition digits_val :: "string \<Rightarrow> nat" where
  "digits_val s = foldl (\<lambda>n c. 10 * n + digit_val c) 0 s"

section \<open>\<open>strconv\<close> readings\<close>

text \<open>\<open>strconv.ParseInt(s, 10, 64)\<close> on a run of digits: only the range can fail.\<close>

definition parse_int64 :: "string \<Rightarrow> int option" where
  "parse_int64 s = (let n = int (digits_val s) in if n < 2 ^ 63 then Some n else None)"

text \<open>
  \<open>strconv.ParseFloat(s, 64)\<close> on digits, a dot and digits: correctly rounded; a value that
  rounds to infinity is an error.
\<close>

definition parse_f64 :: "string \<Rightarrow> f64 option" where
  "parse_f64 s =
     (let ip = takeWhile (\<lambda>c. c \<noteq> CHR ''.'') s;
          fp = drop (Suc (length ip)) s;
          v = f_of_rat (of_nat (digits_val (ip @ fp)) / 10 ^ length fp)
      in if f_is_inf v then None else Some v)"

section \<open>\<open>%v\<close> of a float\<close>

definition pow10 :: "int \<Rightarrow> rat" where
  "pow10 e = (if 0 \<le> e then 10 ^ nat e else 1 / 10 ^ nat (- e))"

text \<open>The exponent \<open>e\<close> with \<open>10 ^ e \<le> q < 10 ^ (e + 1)\<close>, found from that of two.\<close>

definition ilog10 :: "rat \<Rightarrow> int" where
  "ilog10 q = (let e = (ilog2 q * 1233) div 4096
               in if q < pow10 e then e - 1 else if pow10 (e + 1) \<le> q then e + 1 else e)"

text \<open>
  The shortest decimal that rounds to \<open>a\<close>, the closest of them: \<open>p\<close> digits, the floor or the
  ceiling of the scaled value, and one digit more while neither reads back as \<open>a\<close>. Seventeen
  digits always do. The result is the digits as a number and the exponent of the last one.
\<close>

definition reads_back :: "float_format \<Rightarrow> rat \<Rightarrow> int \<Rightarrow> int \<Rightarrow> bool" where
  "reads_back F a n x \<longleftrightarrow> fround F False (of_int n * pow10 x) = FFin False a"

fun shortest :: "float_format \<Rightarrow> rat \<Rightarrow> nat \<Rightarrow> int \<Rightarrow> int \<times> int" where
  "shortest F a fuel p =
     (let x = ilog10 a - (p - 1);
          s = a / pow10 x;
          lo = \<lfloor>s\<rfloor>; hi = lo + 1;
          near_lo = (s - of_int lo < of_int hi - s \<or> s - of_int lo = of_int hi - s \<and> even lo)
      in if near_lo \<and> reads_back F a lo x then (lo, x)
         else if \<not> near_lo \<and> reads_back F a hi x then (hi, x)
         else if reads_back F a lo x then (lo, x)
         else if reads_back F a hi x then (hi, x)
         else (case fuel of 0 \<Rightarrow> (lo, x) | Suc k \<Rightarrow> shortest F a k (p + 1)))"

declare shortest.simps [simp del]

definition strip_zeros :: "string \<Rightarrow> string" where
  "strip_zeros s = rev (dropWhile (\<lambda>c. c = CHR ''0'') (rev s))"

text \<open>\<open>%g\<close> with the shortest precision: exponent form below -4 and from 6 on.\<close>

definition fmt_digits :: "string \<Rightarrow> int \<Rightarrow> string" where
  "fmt_digits ds e =
     (if e < -4 \<or> 6 \<le> e then
        (let m = (case ds of [] \<Rightarrow> '''' | c # cs \<Rightarrow> if cs = [] then [c] else c # CHR ''.'' # cs);
             x = nat_str (nat \<bar>e\<bar>);
             x2 = (if length x < 2 then CHR ''0'' # x else x)
         in m @ CHR ''e'' # (if e < 0 then CHR ''-'' else CHR ''+'') # x2)
      else if e < 0 then ''0.'' @ replicate (nat (- e) - 1) (CHR ''0'') @ ds
      else if length ds \<le> nat e + 1 then ds @ replicate (nat e + 1 - length ds) (CHR ''0'')
      else take (nat e + 1) ds @ CHR ''.'' # drop (nat e + 1) ds)"

fun f_str :: "float_format \<Rightarrow> f64 \<Rightarrow> string" where
  "f_str F FNaN = ''NaN''"
| "f_str F (FInf s) = (if s then ''-Inf'' else ''+Inf'')"
| "f_str F (FFin s q) =
     (if s then ''-'' else '''') @
     (if q = 0 then ''0''
      else let (n, x) = shortest F \<bar>q\<bar> 16 1; ds = nat_str (nat n)
           in fmt_digits (strip_zeros ds) (int (length ds) - 1 + x))"

section \<open>Facts\<close>

lemma digit_val_digit_char: "d < 10 \<Longrightarrow> digit_val (digit_char d) = d"
  by (simp add: digit_val_def digit_char_def of_char_of)

lemma is_digit_digit_char: "d < 10 \<Longrightarrow> is_digit (digit_char d)"
  by (simp add: is_digit_def digit_char_def of_char_of)

lemma digits_val_append: "digits_val (s @ [c]) = 10 * digits_val s + digit_val c"
  by (simp add: digits_val_def)

text \<open>Rendering a natural number and reading its digits is the identity.\<close>

lemma digits_val_nat_str [simp]: "digits_val (nat_str n) = n"
proof (induction n rule: nat_str.induct)
  case (1 n)
  show ?case
  proof (cases "n < 10")
    case True
    then show ?thesis
      by (simp add: nat_str.simps [of n] digits_val_def digit_val_digit_char)
  next
    case False
    with 1 show ?thesis
      by (simp add: nat_str.simps [of n] digits_val_append digit_val_digit_char)
  qed
qed

lemma nat_str_digits: "\<forall>c \<in> set (nat_str n). is_digit c"
proof (induction n rule: nat_str.induct)
  case (1 n)
  then show ?case
    by (subst nat_str.simps) (auto simp: is_digit_digit_char)
qed

lemma nat_str_nonempty [simp]: "nat_str n \<noteq> []"
  by (subst nat_str.simps) simp

lemma parse_int64_nat_str: "int n < 2 ^ 63 \<Longrightarrow> parse_int64 (nat_str n) = Some (int n)"
  by (simp add: parse_int64_def)

end
