(* ===== verification/ExprLexer.thy ===== *)
theory ExprLexer
  imports GoFormat
begin

text \<open>
  The expression language's tokens and lexer (\<open>pkg/dsl/expr/expr.go\<close>). The Go lexer holds the
  source and a byte position; here \<open>unread\<close> is the source from that position on and \<open>offset\<close>
  the position. \<open>lex_next\<close> is \<open>(*lexer).next\<close>, one branch per branch of its switch.
\<close>

section \<open>Tokens\<close>

datatype tok_kind =
    TokEOF | TokIdent | TokInt | TokFloat | TokString | TokTrue | TokFalse | TokDot | TokComma
  | TokLParen | TokRParen | TokAnd | TokOr | TokNot | TokEq | TokNeq | TokLt | TokLte | TokGt
  | TokGte | TokPlus | TokMinus | TokStar | TokSlash | TokPct | TokKwAnd | TokKwOr | TokKwNot
  | TokLBracket | TokRBracket | TokArrow | TokColon | TokLBrace | TokRBrace

record token =
  tkind :: tok_kind
  tvalue :: string

record lexer =
  unread :: string
  offset :: nat

datatype lex_error =
    LoneAmp nat
  | LoneBar nat
  | LoneEq nat
  | UnexpectedChar char nat
  | UnterminatedString nat

definition newLexer :: "string \<Rightarrow> lexer" where
  "newLexer src = \<lparr>unread = src, offset = 0\<rparr>"

section \<open>Character classes\<close>

definition byte :: "char \<Rightarrow> nat" where
  "byte c = of_char c"

definition isIdentStart :: "char \<Rightarrow> bool" where
  "isIdentStart c \<longleftrightarrow>
     c = CHR ''_'' \<or> 97 \<le> byte c \<and> byte c \<le> 122 \<or> 65 \<le> byte c \<and> byte c \<le> 90"

definition isIdentCont :: "char \<Rightarrow> bool" where
  "isIdentCont c \<longleftrightarrow> isIdentStart c \<or> is_digit c"

definition isSpace :: "char \<Rightarrow> bool" where
  "isSpace c \<longleftrightarrow> c = CHR '' '' \<or> c = CHR 0x09 \<or> c = CHR 0x0A \<or> c = CHR 0x0D"

section \<open>The readers\<close>

definition advance_by :: "nat \<Rightarrow> lexer \<Rightarrow> lexer" where
  "advance_by n l = \<lparr>unread = drop n (unread l), offset = offset l + n\<rparr>"

fun skip_space :: "string \<Rightarrow> nat \<Rightarrow> lexer" where
  "skip_space [] n = \<lparr>unread = [], offset = n\<rparr>"
| "skip_space (c # cs) n =
     (if isSpace c then skip_space cs (n + 1) else \<lparr>unread = c # cs, offset = n\<rparr>)"

text \<open>The loop of \<open>readString\<close> after the opening quote; \<open>None\<close> is the end of the source.\<close>

definition unescape :: "char \<Rightarrow> char" where
  "unescape e = (if e = CHR ''n'' then CHR 0x0A else if e = CHR ''t'' then CHR 0x09 else e)"

fun read_string_loop :: "char \<Rightarrow> string \<Rightarrow> string \<Rightarrow> nat \<Rightarrow> (string \<times> lexer) option" where
  "read_string_loop q sb [] n = None"
| "read_string_loop q sb [c] n =
     (if c = q then Some (sb, \<lparr>unread = [], offset = n + 1\<rparr>)
      else read_string_loop q (sb @ [c]) [] (n + 1))"
| "read_string_loop q sb (c # e # cs) n =
     (if c = CHR 0x5C then read_string_loop q (sb @ [unescape e]) cs (n + 2)
      else if c = q then Some (sb, \<lparr>unread = e # cs, offset = n + 1\<rparr>)
      else read_string_loop q (sb @ [c]) (e # cs) (n + 1))"

definition readString :: "char \<Rightarrow> lexer \<Rightarrow> (lex_error, token \<times> lexer) result" where
  "readString q l =
     (case read_string_loop q [] (drop 1 (unread l)) (offset l + 1) of
        None \<Rightarrow> Inl (UnterminatedString (offset l))
      | Some (sb, l') \<Rightarrow> Inr (\<lparr>tkind = TokString, tvalue = sb\<rparr>, l'))"

text \<open>How many bytes \<open>readNumber\<close> takes, and whether a dot was one of them.\<close>

fun read_number_loop :: "bool \<Rightarrow> string \<Rightarrow> nat \<times> bool" where
  "read_number_loop isFloat [] = (0, isFloat)"
| "read_number_loop isFloat (c # cs) =
     (if is_digit c then
        (let (n, f) = read_number_loop isFloat cs in (n + 1, f))
      else if c = CHR ''.'' \<and> \<not> isFloat \<and> cs \<noteq> [] \<and> is_digit (hd cs) then
        (let (n, f) = read_number_loop True cs in (n + 1, f))
      else (0, isFloat))"

definition readNumber :: "lexer \<Rightarrow> token \<times> lexer" where
  "readNumber l =
     (let (n, isFloat) = read_number_loop False (unread l)
      in (\<lparr>tkind = (if isFloat then TokFloat else TokInt), tvalue = take n (unread l)\<rparr>,
          advance_by n l))"

definition ident_kind :: "string \<Rightarrow> tok_kind" where
  "ident_kind v =
     (if v = ''true'' then TokTrue
      else if v = ''false'' then TokFalse
      else if v = ''and'' then TokKwAnd
      else if v = ''or'' then TokKwOr
      else if v = ''not'' then TokKwNot
      else TokIdent)"

definition readIdent :: "lexer \<Rightarrow> token \<times> lexer" where
  "readIdent l =
     (let v = takeWhile isIdentCont (unread l)
      in (\<lparr>tkind = ident_kind v, tvalue = v\<rparr>, advance_by (length v) l))"

section \<open>The next token\<close>

abbreviation emit_tok :: "tok_kind \<Rightarrow> string \<Rightarrow> lexer \<Rightarrow> (lex_error, token \<times> lexer) result" where
  "emit_tok k v l \<equiv> Inr (\<lparr>tkind = k, tvalue = v\<rparr>, advance_by (length v) l)"

abbreviation peek_is :: "char \<Rightarrow> string \<Rightarrow> bool" where
  "peek_is c cs \<equiv> (cs \<noteq> [] \<and> hd cs = c)"

text \<open>The switch's one-byte tokens, and the ones a second byte decides.\<close>

definition single_tok :: "char \<Rightarrow> tok_kind option" where
  "single_tok c =
     (if c = CHR ''.'' then Some TokDot
      else if c = CHR '','' then Some TokComma
      else if c = CHR ''('' then Some TokLParen
      else if c = CHR '')'' then Some TokRParen
      else if c = CHR ''['' then Some TokLBracket
      else if c = CHR '']'' then Some TokRBracket
      else if c = CHR ''{'' then Some TokLBrace
      else if c = CHR ''}'' then Some TokRBrace
      else if c = CHR '':'' then Some TokColon
      else if c = CHR ''+'' then Some TokPlus
      else if c = CHR ''-'' then Some TokMinus
      else if c = CHR ''*'' then Some TokStar
      else if c = CHR ''/'' then Some TokSlash
      else if c = CHR ''%'' then Some TokPct
      else None)"

definition double_tok :: "char \<Rightarrow> string \<Rightarrow> lexer \<Rightarrow> (lex_error, token \<times> lexer) result option" where
  "double_tok c cs l =
     (if c = CHR ''&'' then
        Some (if peek_is (CHR ''&'') cs then emit_tok TokAnd ''&&'' l else Inl (LoneAmp (offset l)))
      else if c = CHR ''|'' then
        Some (if peek_is (CHR ''|'') cs then emit_tok TokOr ''||'' l else Inl (LoneBar (offset l)))
      else if c = CHR ''!'' then
        Some (if peek_is (CHR ''='') cs then emit_tok TokNeq ''!='' l else emit_tok TokNot ''!'' l)
      else if c = CHR ''='' then
        Some (if peek_is (CHR ''='') cs then emit_tok TokEq ''=='' l
              else if peek_is (CHR ''>'') cs then emit_tok TokArrow ''=>'' l
              else Inl (LoneEq (offset l)))
      else if c = CHR ''<'' then
        Some (if peek_is (CHR ''='') cs then emit_tok TokLte ''<='' l else emit_tok TokLt ''<'' l)
      else if c = CHR ''>'' then
        Some (if peek_is (CHR ''='') cs then emit_tok TokGte ''>='' l else emit_tok TokGt ''>'' l)
      else None)"

definition lex_next :: "lexer \<Rightarrow> (lex_error, token \<times> lexer) result" where
  "lex_next l0 =
     (let l = skip_space (unread l0) (offset l0) in
      case unread l of
        [] \<Rightarrow> Inr (\<lparr>tkind = TokEOF, tvalue = []\<rparr>, l)
      | c # cs \<Rightarrow>
          (case single_tok c of
             Some k \<Rightarrow> emit_tok k [c] l
           | None \<Rightarrow>
               (case double_tok c cs l of
                  Some r \<Rightarrow> r
                | None \<Rightarrow>
                    if c = CHR 0x22 \<or> c = CHR 0x27 then readString c l
                    else if is_digit c then Inr (readNumber l)
                    else if isIdentStart c then Inr (readIdent l)
                    else Inl (UnexpectedChar c (offset l)))))"

section \<open>Facts\<close>

text \<open>The lexer position: bytes read and bytes unread make up the source.\<close>

definition lex_total :: "lexer \<Rightarrow> nat" where
  "lex_total l = offset l + length (unread l)"

lemma skip_space_total: "lex_total (skip_space s n) = n + length s"
  by (induction s n rule: skip_space.induct) (auto simp: lex_total_def)

lemma skip_space_le: "length (unread (skip_space s n)) \<le> length s"
  by (induction s n rule: skip_space.induct) auto

lemma skip_space_head: "unread (skip_space s n) = c # cs \<Longrightarrow> \<not> isSpace c"
  by (induction s n rule: skip_space.induct) (auto split: if_splits)

lemma advance_by_total: "n \<le> length (unread l) \<Longrightarrow> lex_total (advance_by n l) = lex_total l"
  by (simp add: lex_total_def advance_by_def)

lemma advance_by_less:
  "0 < n \<Longrightarrow> unread l \<noteq> [] \<Longrightarrow> length (unread (advance_by n l)) < length (unread l)"
  by (cases "unread l") (auto simp: advance_by_def)

lemma read_string_loop_total:
  "read_string_loop q sb s n = Some (v, l) \<Longrightarrow> lex_total l = n + length s \<and> length (unread l) < length s"
  by (induction q sb s n rule: read_string_loop.induct)
    (fastforce simp: lex_total_def split: if_splits)+

lemma read_number_loop_le: "read_number_loop b s = (n, f) \<Longrightarrow> n \<le> length s"
  by (induction b s arbitrary: n f rule: read_number_loop.induct)
    (auto split: if_splits prod.splits)

lemma read_number_loop_pos: "is_digit c \<Longrightarrow> read_number_loop b (c # cs) = (n, f) \<Longrightarrow> 0 < n"
  by (auto split: prod.splits)

text \<open>
  One step of the lexer: no byte is lost or invented, the end of file comes only when
  nothing is left to read, and any other token takes at least one byte.
\<close>

definition lex_step_ok :: "lexer \<Rightarrow> token \<Rightarrow> lexer \<Rightarrow> bool" where
  "lex_step_ok l t l' \<longleftrightarrow> lex_total l' = lex_total l \<and>
     (if tkind t = TokEOF then unread l' = [] else length (unread l') < length (unread l))"

lemma advance_by_ok:
  assumes "unread l = c # cs" "0 < n" "n \<le> length (unread l)" "k \<noteq> TokEOF"
  shows "lex_step_ok l \<lparr>tkind = k, tvalue = v\<rparr> (advance_by n l)"
  using assms by (simp add: lex_step_ok_def lex_total_def advance_by_def)

lemma single_tok_ok:
  assumes "unread l = c # cs" "single_tok c = Some k"
  shows "lex_step_ok l \<lparr>tkind = k, tvalue = v\<rparr> (advance_by (Suc 0) l)"
  using assms by (intro advance_by_ok) (auto simp: single_tok_def split: if_splits)

lemma double_tok_ok:
  assumes l: "unread l = c # cs" and d: "double_tok c cs l = Some (Inr (t, l'))"
  shows "lex_step_ok l t l'"
proof -
  have two: "peek_is x cs \<Longrightarrow> 2 \<le> length (unread l)" for x
    using l by (cases cs) auto
  have "\<exists>k v n. t = \<lparr>tkind = k, tvalue = v\<rparr> \<and> l' = advance_by n l \<and> k \<noteq> TokEOF \<and>
      (n = 1 \<or> n = 2 \<and> (\<exists>x. peek_is x cs))"
    using d by (auto simp: double_tok_def numeral_2_eq_2 split: if_splits)
  with two l show ?thesis by (fastforce intro: advance_by_ok)
qed

lemma readString_ok:
  assumes "unread l = c # cs" "readString q l = Inr (t, l')"
  shows "lex_step_ok l t l'"
  using assms read_string_loop_total [of q "[]" cs "offset l + 1"]
  by (auto simp: readString_def lex_step_ok_def lex_total_def split: option.splits)

lemma readNumber_ok:
  assumes "unread l = c # cs" "is_digit c"
  shows "lex_step_ok l (fst (readNumber l)) (snd (readNumber l))"
proof -
  obtain n f where nf: "read_number_loop False (c # cs) = (n, f)" by fastforce
  have "0 < n" using read_number_loop_pos [OF assms(2) nf] .
  moreover have "n \<le> length (unread l)" using read_number_loop_le [OF nf] assms(1) by simp
  moreover have "(if f then TokFloat else TokInt) \<noteq> TokEOF" by simp
  moreover have "readNumber l =
      (\<lparr>tkind = if f then TokFloat else TokInt, tvalue = take n (unread l)\<rparr>, advance_by n l)"
    by (simp only: readNumber_def assms(1) nf Let_def prod.case)
  ultimately show ?thesis using advance_by_ok [OF assms(1)] by simp
qed

lemma readIdent_ok:
  assumes "unread l = c # cs" "isIdentStart c"
  shows "lex_step_ok l (fst (readIdent l)) (snd (readIdent l))"
proof -
  let ?v = "takeWhile isIdentCont (unread l)"
  have "0 < length ?v" using assms by (simp add: isIdentCont_def)
  moreover have "length ?v \<le> length (unread l)" by (rule length_takeWhile_le)
  moreover have "ident_kind ?v \<noteq> TokEOF" by (simp add: ident_kind_def)
  ultimately have "lex_step_ok l \<lparr>tkind = ident_kind ?v, tvalue = ?v\<rparr> (advance_by (length ?v) l)"
    by (rule advance_by_ok [OF assms(1)])
  then show ?thesis by (simp add: readIdent_def Let_def)
qed

lemma lex_next_ok:
  assumes "lex_next l = Inr (t, l')"
  shows "lex_step_ok l t l'"
proof -
  let ?l = "skip_space (unread l) (offset l)"
  have tot: "lex_total ?l = lex_total l"
    using skip_space_total by (simp add: lex_total_def)
  have le: "length (unread ?l) \<le> length (unread l)" by (rule skip_space_le)
  have "lex_step_ok ?l t l'"
  proof (cases "unread ?l")
    case Nil
    with assms show ?thesis by (auto simp: lex_next_def lex_step_ok_def)
  next
    case (Cons c cs)
    note ok = single_tok_ok [OF Cons] double_tok_ok [OF Cons] readString_ok [OF Cons]
    show ?thesis
      using assms Cons readNumber_ok [OF Cons] readIdent_ok [OF Cons]
      by (auto simp: lex_next_def Let_def intro: ok split: option.splits if_splits)
  qed
  with tot le show ?thesis by (auto simp: lex_step_ok_def)
qed

end
