(* ===== verification/ExprSyntax.thy ===== *)
theory ExprSyntax
  imports ExprLexer
begin

text \<open>
  The abstract syntax of the expression language, the builtin registry with its arities (the
  one declaration the parser and the evaluator share), and what a well-formed tree is: the
  tree the parser can build, and the one the evaluator never refuses for its shape.
\<close>

section \<open>Nodes\<close>

type_synonym int64 = "64 word"

datatype node =
    LitBool bool
  | LitInt int64
  | LitFloat f64
  | LitString string
  | PathNode string "string list"
  | UnaryNode string node
  | BinaryNode string node node
  | FuncCallNode string "node list"
  | IndexNode node node
  | ListLit "node list"
  | ObjectLit "string list" "node list"
  | LambdaCombNode string node "node option" "string list" node

section \<open>The builtin registry\<close>

datatype builtin_fn =
    BLength | BConcat | BUnique | BContains | BJoin | BTail | BIf | BSort | BKeys | BValues
  | BSlice | BSum | BMin | BMax | BFlatten | BFloor | BRound

text \<open>The implementation, the least argument count and the largest (\<open>None\<close>: unbounded).\<close>

record builtin_entry =
  bfn :: builtin_fn
  bmin :: nat
  bmax :: "nat option"

definition builtins :: "(string \<times> builtin_entry) list" where
  "builtins =
     [(''length'', \<lparr>bfn = BLength, bmin = 1, bmax = Some 1\<rparr>),
      (''concat'', \<lparr>bfn = BConcat, bmin = 1, bmax = None\<rparr>),
      (''unique'', \<lparr>bfn = BUnique, bmin = 1, bmax = Some 1\<rparr>),
      (''contains'', \<lparr>bfn = BContains, bmin = 2, bmax = Some 2\<rparr>),
      (''join'', \<lparr>bfn = BJoin, bmin = 2, bmax = Some 2\<rparr>),
      (''tail'', \<lparr>bfn = BTail, bmin = 2, bmax = Some 2\<rparr>),
      (''if'', \<lparr>bfn = BIf, bmin = 3, bmax = Some 3\<rparr>),
      (''sort'', \<lparr>bfn = BSort, bmin = 1, bmax = Some 1\<rparr>),
      (''keys'', \<lparr>bfn = BKeys, bmin = 1, bmax = Some 1\<rparr>),
      (''values'', \<lparr>bfn = BValues, bmin = 1, bmax = Some 1\<rparr>),
      (''slice'', \<lparr>bfn = BSlice, bmin = 3, bmax = Some 3\<rparr>),
      (''sum'', \<lparr>bfn = BSum, bmin = 1, bmax = Some 1\<rparr>),
      (''min'', \<lparr>bfn = BMin, bmin = 1, bmax = None\<rparr>),
      (''max'', \<lparr>bfn = BMax, bmin = 1, bmax = None\<rparr>),
      (''flatten'', \<lparr>bfn = BFlatten, bmin = 1, bmax = Some 1\<rparr>),
      (''floor'', \<lparr>bfn = BFloor, bmin = 1, bmax = Some 1\<rparr>),
      (''round'', \<lparr>bfn = BRound, bmin = 1, bmax = Some 1\<rparr>)]"

definition lookup_builtin :: "string \<Rightarrow> builtin_entry option" where
  "lookup_builtin name = map_of builtins name"

record arity_error =
  aFunc :: string
  aGot :: nat
  aMin :: nat
  aMax :: "nat option"

text \<open>\<open>checkArity\<close>: no complaint for a name that is not a builtin.\<close>

definition checkArity :: "string \<Rightarrow> nat \<Rightarrow> arity_error option" where
  "checkArity name got =
     (case lookup_builtin name of
        None \<Rightarrow> None
      | Some b \<Rightarrow>
          if got < bmin b \<or> (case bmax b of None \<Rightarrow> False | Some m \<Rightarrow> m < got)
          then Some \<lparr>aFunc = name, aGot = got, aMin = bmin b, aMax = bmax b\<rparr> else None)"

definition isLambdaComb :: "string \<Rightarrow> bool" where
  "isLambdaComb name \<longleftrightarrow> name = ''map'' \<or> name = ''filter'' \<or> name = ''reduce''"

text \<open>The namespaces the evaluator resolves explicitly.\<close>

definition evalNamespaces :: "string list" where
  "evalNamespaces = [''vars'', ''input'', ''outputs'', ''artifacts'', ''loop'', ''run'']"

definition isEvalNamespace :: "string \<Rightarrow> bool" where
  "isEvalNamespace ns \<longleftrightarrow> ns \<in> set evalNamespaces"

section \<open>Well-formed trees\<close>

definition unary_ops :: "string list" where
  "unary_ops = [''!'', ''-'']"

definition compare_ops :: "string list" where
  "compare_ops = [''<'', ''<='', ''>'', ''>='']"

definition arith_ops :: "string list" where
  "arith_ops = [''+'', ''-'', ''*'', ''/'', ''%'']"

definition binary_ops :: "string list" where
  "binary_ops = [''&&'', ''||'', ''=='', ''!=''] @ compare_ops @ arith_ops"

definition call_ok :: "string \<Rightarrow> nat \<Rightarrow> bool" where
  "call_ok f n \<longleftrightarrow> lookup_builtin f \<noteq> None \<and> checkArity f n = None"

text \<open>What \<open>readIdent\<close> reads.\<close>

definition ident_ok :: "string \<Rightarrow> bool" where
  "ident_ok s \<longleftrightarrow> s \<noteq> [] \<and> (\<forall>c \<in> set s. isIdentCont c)"

fun wf_node :: "node \<Rightarrow> bool" where
  "wf_node (PathNode ns path) = (ident_ok ns \<and> (\<forall>seg \<in> set path. ident_ok seg))"
| "wf_node (UnaryNode op c) = (op \<in> set unary_ops \<and> wf_node c)"
| "wf_node (BinaryNode op l r) = (op \<in> set binary_ops \<and> wf_node l \<and> wf_node r)"
| "wf_node (FuncCallNode f args) = (call_ok f (length args) \<and> (\<forall>a \<in> set args. wf_node a))"
| "wf_node (IndexNode r i) = (wf_node r \<and> wf_node i)"
| "wf_node (ListLit es) = (\<forall>e \<in> set es. wf_node e)"
| "wf_node (ObjectLit ks vs) =
     (distinct ks \<and> length ks = length vs \<and> (\<forall>v \<in> set vs. wf_node v))"
| "wf_node (LambdaCombNode name coll init params body) =
     (isLambdaComb name \<and> wf_node coll \<and>
      (case init of None \<Rightarrow> name \<noteq> ''reduce'' | Some i \<Rightarrow> name = ''reduce'' \<and> wf_node i) \<and>
      length params = (if name = ''reduce'' then 2 else 1) \<and>
      (\<forall>p \<in> set params. \<not> isEvalNamespace p) \<and> wf_node body)"
| "wf_node _ = True"

section \<open>Facts\<close>

lemma lookup_builtin_arity:
  "lookup_builtin f = Some b \<Longrightarrow> checkArity f n = None \<longleftrightarrow>
     bmin b \<le> n \<and> (case bmax b of None \<Rightarrow> True | Some m \<Rightarrow> n \<le> m)"
  by (auto simp: checkArity_def split: option.splits)

lemma checkArity_Some:
  "checkArity f n = Some e \<Longrightarrow> aFunc e = f \<and> aGot e = n \<and> \<not> call_ok f n"
  by (auto simp: checkArity_def call_ok_def split: option.splits if_splits)

text \<open>The two name spaces a call can name do not meet.\<close>

lemma lambda_not_builtin: "isLambdaComb f \<Longrightarrow> lookup_builtin f = None"
  unfolding isLambdaComb_def lookup_builtin_def builtins_def by (elim disjE) simp_all

end
