(* ===== verification/ExprParser.thy ===== *)
theory ExprParser
  imports ExprSyntax
begin

text \<open>
  The recursive-descent parser of \<open>pkg/dsl/expr/expr.go\<close>, one definition per method, over an
  explicit parser state: the lexer, the current token, the sticky error \<open>p.err\<close>, the descent
  depth and the read budget. A method returns its \<open>(node, error)\<close> with the state it leaves.
  The recursion of the grammar passes through \<open>parseExpr\<close> alone, so every other method takes
  the expression parser it calls as an argument; \<open>parseExpr\<close> ties the knot on a fuel, of which
  the depth limit and the length of the source bound the use.
\<close>

section \<open>State\<close>

datatype parse_error =
    PLex lex_error
  | PBudget int int                 \<comment> \<open>\<open>BudgetError\<close>: the limit, what earlier readings spent\<close>
  | PDepth
  | PTrailing string
  | PUnexpectedToken string
  | PExpectedIdent string           \<comment> \<open>after a dot\<close>
  | PExpectedRBracket string
  | PExpectedRParen string
  | PListLit string
  | PObjectKey string
  | PObjectColon string string
  | PObjectRepeats string
  | PObjectLit string
  | PCallClose string string
  | PInvalidInt string
  | PInvalidFloat string
  | PUnknownFunction string
  | PArity arity_error
  | PLambdaComma string string
  | PLambdaArity string nat nat
  | PLambdaClose string string
  | PLambdaParams string string
  | PLambdaExpected string string
  | PLambdaArrow string string
  | PLambdaReserved string
  | PFuel                           \<comment> \<open>not an error of the code: the model's fuel ran out\<close>

record read_budget =
  blimit :: int
  bspent :: int

record pstate =
  plex :: lexer
  pcur :: token
  perr :: "parse_error option"
  pdepth :: nat
  pbudget :: read_budget
  pbegan :: int

type_synonym 'a parser = "pstate \<Rightarrow> (parse_error, 'a) result \<times> pstate"

definition NewBudget :: "int \<Rightarrow> read_budget" where
  "NewBudget limit = \<lparr>blimit = limit, bspent = 0\<rparr>"

text \<open>\<open>(*Budget).Spend\<close>: take \<open>n\<close> records, or spend the budget whole and refuse.\<close>

definition Spend :: "int \<Rightarrow> read_budget \<Rightarrow> (parse_error, unit) result \<times> read_budget" where
  "Spend n b =
     (if n \<le> 0 then (Inr (), b)
      else if blimit b - bspent b < n then
        (Inl (PBudget (blimit b) (bspent b)), b\<lparr>bspent := blimit b\<rparr>)
      else (Inr (), b\<lparr>bspent := bspent b + n\<rparr>))"

definition then_p :: "'a parser \<Rightarrow> ('a \<Rightarrow> 'b parser) \<Rightarrow> 'b parser" where
  "then_p m f s = (case m s of (Inl e, s1) \<Rightarrow> (Inl e, s1) | (Inr x, s1) \<Rightarrow> f x s1)"

abbreviation ckind :: "pstate \<Rightarrow> tok_kind" where
  "ckind s \<equiv> tkind (pcur s)"

abbreviation cval :: "pstate \<Rightarrow> string" where
  "cval s \<equiv> tvalue (pcur s)"

definition maxExprDepth :: nat where
  "maxExprDepth = 256"

definition enter :: "unit parser" where
  "enter s =
     (let s1 = s\<lparr>pdepth := pdepth s + 1\<rparr>
      in if maxExprDepth < pdepth s1 then (Inl PDepth, s1) else (Inr (), s1))"

definition leave :: "pstate \<Rightarrow> pstate" where
  "leave s = s\<lparr>pdepth := pdepth s - 1\<rparr>"

text \<open>\<open>if err := p.enter(); err != nil { return }; defer p.leave()\<close> around a body.\<close>

definition nested :: "'a parser \<Rightarrow> 'a parser" where
  "nested body s =
     (case enter s of
        (Inl e, s1) \<Rightarrow> (Inl e, s1)
      | (Inr _, s1) \<Rightarrow> (case body s1 of (r, s2) \<Rightarrow> (r, leave s2)))"

definition advance :: "pstate \<Rightarrow> pstate" where
  "advance s =
     (case perr s of
        Some _ \<Rightarrow> s
      | None \<Rightarrow>
          if blimit (pbudget s) \<le> bspent (pbudget s) then
            s\<lparr>perr := Some (PBudget (blimit (pbudget s)) (pbegan s))\<rparr>
          else
            (case lex_next (plex s) of
               Inl e \<Rightarrow> s\<lparr>perr := Some (PLex e)\<rparr>
             | Inr (t, l) \<Rightarrow>
                 s\<lparr>plex := l, pcur := t,
                   pbudget := (pbudget s)\<lparr>bspent := bspent (pbudget s) + 1\<rparr>\<rparr>))"

section \<open>Primaries\<close>

text \<open>The \<open>.field\<close> loop of a dotted path.\<close>

fun pathLoop :: "nat \<Rightarrow> string list \<Rightarrow> string list parser" where
  "pathLoop 0 path s = (Inl PFuel, s)"
| "pathLoop (Suc k) path s =
     (if ckind s = TokDot then
        let s1 = advance s in
        if ckind s1 \<noteq> TokIdent then (Inl (PExpectedIdent (cval s1)), s1)
        else pathLoop k (path @ [cval s1]) (advance s1)
      else (Inr path, s))"

text \<open>One or more expressions separated by commas (list elements, call arguments).\<close>

fun commaLoop :: "node parser \<Rightarrow> nat \<Rightarrow> node list \<Rightarrow> node list parser" where
  "commaLoop pe 0 acc s = (Inl PFuel, s)"
| "commaLoop pe (Suc k) acc s =
     then_p pe (\<lambda>el s1.
       if ckind s1 = TokComma then commaLoop pe k (acc @ [el]) (advance s1)
       else (Inr (acc @ [el]), s1)) s"

definition commaList :: "node parser \<Rightarrow> nat \<Rightarrow> tok_kind \<Rightarrow> node list parser" where
  "commaList pe n stop s = (if ckind s \<noteq> stop then commaLoop pe n [] s else (Inr [], s))"

definition parseListLit :: "node parser \<Rightarrow> nat \<Rightarrow> node parser" where
  "parseListLit pe n =
     nested (\<lambda>s0. let s = advance s0 in
       then_p (commaList pe n TokRBracket)
         (\<lambda>elems s1.
            if ckind s1 \<noteq> TokRBracket then (Inl (PListLit (cval s1)), s1)
            else (Inr (ListLit elems), advance s1)) s)"

fun pairLoop :: "node parser \<Rightarrow> nat \<Rightarrow> string list \<Rightarrow> node list \<Rightarrow> (string list \<times> node list) parser" where
  "pairLoop pe 0 keys vals s = (Inl PFuel, s)"
| "pairLoop pe (Suc k) keys vals s =
     (if ckind s \<noteq> TokIdent \<and> ckind s \<noteq> TokString then (Inl (PObjectKey (cval s)), s)
      else
        let key = cval s; s1 = advance s in
        if ckind s1 \<noteq> TokColon then (Inl (PObjectColon key (cval s1)), s1)
        else
          then_p pe (\<lambda>val s2.
            if key \<in> set keys then (Inl (PObjectRepeats key), s2)
            else if ckind s2 = TokComma then pairLoop pe k (keys @ [key]) (vals @ [val]) (advance s2)
            else (Inr (keys @ [key], vals @ [val]), s2)) (advance s1))"

definition pairList :: "node parser \<Rightarrow> nat \<Rightarrow> (string list \<times> node list) parser" where
  "pairList pe n s = (if ckind s \<noteq> TokRBrace then pairLoop pe n [] [] s else (Inr ([], []), s))"

definition parseObjectLit :: "node parser \<Rightarrow> nat \<Rightarrow> node parser" where
  "parseObjectLit pe n =
     nested (\<lambda>s0. let s = advance s0 in
       then_p (pairList pe n)
         (\<lambda>(keys, vals) s1.
            if ckind s1 \<noteq> TokRBrace then (Inl (PObjectLit (cval s1)), s1)
            else (Inr (ObjectLit keys vals), advance s1)) s)"

definition parseFuncCallArgs :: "node parser \<Rightarrow> nat \<Rightarrow> string \<Rightarrow> node parser" where
  "parseFuncCallArgs pe n name s0 =
     (let s = advance s0 in
      then_p (commaList pe n TokRParen)
        (\<lambda>args s1.
           if ckind s1 \<noteq> TokRParen then (Inl (PCallClose name (cval s1)), s1)
           else
             let s2 = advance s1 in
             (case checkArity name (length args) of
                Some e \<Rightarrow> (Inl (PArity e), s2)
              | None \<Rightarrow> (Inr (FuncCallNode name args), s2))) s)"

text \<open>The parenthesised parameter list of a lambda.\<close>

fun paramLoop :: "nat \<Rightarrow> string list \<Rightarrow> string list parser" where
  "paramLoop 0 params s = (Inl PFuel, s)"
| "paramLoop (Suc k) params s =
     (if ckind s = TokIdent then
        let ps = params @ [cval s]; s1 = advance s in
        if ckind s1 = TokComma then paramLoop k ps (advance s1) else (Inr ps, s1)
      else (Inr params, s))"

definition parseLambdaParams :: "nat \<Rightarrow> string \<Rightarrow> string list parser" where
  "parseLambdaParams n ctxName s =
     (if ckind s = TokLParen then
        then_p (paramLoop n []) (\<lambda>params s1.
          if ckind s1 \<noteq> TokRParen then (Inl (PLambdaParams ctxName (cval s1)), s1)
          else (Inr params, advance s1)) (advance s)
      else if ckind s = TokIdent then (Inr [cval s], advance s)
      else (Inl (PLambdaExpected ctxName (cval s)), s))"

definition parseLambda :: "node parser \<Rightarrow> nat \<Rightarrow> string \<Rightarrow> (string list \<times> node) parser" where
  "parseLambda pe n ctxName =
     then_p (parseLambdaParams n ctxName) (\<lambda>params s1.
       if ckind s1 \<noteq> TokArrow then (Inl (PLambdaArrow ctxName (cval s1)), s1)
       else
         let s2 = advance s1 in
         (case find isEvalNamespace params of
            Some pm \<Rightarrow> (Inl (PLambdaReserved pm), s2)
          | None \<Rightarrow> then_p pe (\<lambda>body s3. (Inr (params, body), s3)) s2))"

text \<open>The initial value of a \<open>reduce\<close> with the comma that follows it.\<close>

definition parseInit :: "node parser \<Rightarrow> string \<Rightarrow> node option parser" where
  "parseInit pe name s =
     (if name = ''reduce'' then
        then_p pe (\<lambda>i s1.
          if ckind s1 \<noteq> TokComma then (Inl (PLambdaComma name (cval s1)), s1)
          else (Inr (Some i), advance s1)) s
      else (Inr None, s))"

definition parseLambdaComb :: "node parser \<Rightarrow> nat \<Rightarrow> string \<Rightarrow> node parser" where
  "parseLambdaComb pe n name =
     nested (\<lambda>s0.
       then_p pe (\<lambda>coll s1.
         if ckind s1 \<noteq> TokComma then (Inl (PLambdaComma name (cval s1)), s1)
         else
           then_p (parseInit pe name) (\<lambda>init.
             then_p (parseLambda pe n name) (\<lambda>(params, body) s3.
               let want = (if name = ''reduce'' then 2 else 1) in
               if length params \<noteq> want then (Inl (PLambdaArity name want (length params)), s3)
               else if ckind s3 \<noteq> TokRParen then (Inl (PLambdaClose name (cval s3)), s3)
               else (Inr (LambdaCombNode name coll init params body), advance s3)))
           (advance s1)) (advance s0))"

text \<open>An identifier: a call when \<open>(\<close> follows it directly, a dotted path otherwise.\<close>

definition parseIdent :: "node parser \<Rightarrow> nat \<Rightarrow> node parser" where
  "parseIdent pe n s =
     (let ns = cval s; s1 = advance s in
      if ckind s1 = TokLParen then
        if isLambdaComb ns then parseLambdaComb pe n ns s1
        else if lookup_builtin ns = None then (Inl (PUnknownFunction ns), s1)
        else parseFuncCallArgs pe n ns s1
      else then_p (pathLoop n []) (\<lambda>path s2. (Inr (PathNode ns path), s2)) s1)"

definition parseParen :: "node parser \<Rightarrow> node parser" where
  "parseParen pe s =
     then_p pe (\<lambda>inner s1.
       if ckind s1 \<noteq> TokRParen then (Inl (PExpectedRParen (cval s1)), s1)
       else (Inr inner, advance s1)) (advance s)"

definition parsePrimary :: "node parser \<Rightarrow> nat \<Rightarrow> node parser" where
  "parsePrimary pe n s =
     (case perr s of
        Some e \<Rightarrow> (Inl e, s)
      | None \<Rightarrow>
          (case ckind s of
             TokInt \<Rightarrow>
               (case parse_int64 (cval s) of
                  None \<Rightarrow> (Inl (PInvalidInt (cval s)), s)
                | Some v \<Rightarrow> (Inr (LitInt (word_of_int v)), advance s))
           | TokFloat \<Rightarrow>
               (case parse_f64 (cval s) of
                  None \<Rightarrow> (Inl (PInvalidFloat (cval s)), s)
                | Some v \<Rightarrow> (Inr (LitFloat v), advance s))
           | TokString \<Rightarrow> (Inr (LitString (cval s)), advance s)
           | TokTrue \<Rightarrow> (Inr (LitBool True), advance s)
           | TokFalse \<Rightarrow> (Inr (LitBool False), advance s)
           | TokLParen \<Rightarrow> parseParen pe s
           | TokLBracket \<Rightarrow> parseListLit pe n s
           | TokLBrace \<Rightarrow> parseObjectLit pe n s
           | TokIdent \<Rightarrow> parseIdent pe n s
           | _ \<Rightarrow> (Inl (PUnexpectedToken (cval s)), s)))"

section \<open>Operators\<close>

text \<open>The subscript and field loop of \<open>parsePostfix\<close>.\<close>

fun postfixLoop :: "node parser \<Rightarrow> nat \<Rightarrow> node \<Rightarrow> node parser" where
  "postfixLoop pe 0 nd s = (Inl PFuel, s)"
| "postfixLoop pe (Suc k) nd s =
     (if ckind s = TokLBracket \<or> ckind s = TokDot then
        (case enter s of
           (Inl e, s1) \<Rightarrow> (Inl e, s1)
         | (Inr _, s1) \<Rightarrow>
             if ckind s1 = TokDot then
               let s2 = advance s1 in
               if ckind s2 \<noteq> TokIdent then (Inl (PExpectedIdent (cval s2)), leave s2)
               else postfixLoop pe k (IndexNode nd (LitString (cval s2))) (leave (advance s2))
             else
               (case pe (advance s1) of
                  (Inl e, s2) \<Rightarrow> (Inl e, leave s2)
                | (Inr idx, s2) \<Rightarrow>
                    if ckind s2 \<noteq> TokRBracket then (Inl (PExpectedRBracket (cval s2)), leave s2)
                    else postfixLoop pe k (IndexNode nd idx) (leave (advance s2))))
      else (Inr nd, s))"

definition parsePostfix :: "node parser \<Rightarrow> nat \<Rightarrow> node parser" where
  "parsePostfix pe n = then_p (parsePrimary pe n) (postfixLoop pe n)"

fun parseUnary :: "node parser \<Rightarrow> nat \<Rightarrow> nat \<Rightarrow> node parser" where
  "parseUnary pe n 0 s = (Inl PFuel, s)"
| "parseUnary pe n (Suc k) s =
     (if ckind s = TokMinus then
        nested (\<lambda>s1. then_p (parseUnary pe n k) (\<lambda>child s2. (Inr (UnaryNode ''-'' child), s2)) (advance s1)) s
      else parsePostfix pe n s)"

text \<open>
  The loop of \<open>parseMul\<close>, \<open>parseAdd\<close>, \<open>parseAnd\<close> and \<open>parseOr\<close>: while the token is one of the
  level's operators, advance, parse the right operand and fold to the left. \<open>opname\<close> gives the
  node's operator from the token (its text for the arithmetic levels, a fixed one for the
  logical levels, whose keyword forms mean the same).
\<close>

fun leftLoop :: "(tok_kind \<Rightarrow> bool) \<Rightarrow> (token \<Rightarrow> string) \<Rightarrow> node parser \<Rightarrow> nat \<Rightarrow> node \<Rightarrow> node parser" where
  "leftLoop isop opname operand 0 left s = (Inl PFuel, s)"
| "leftLoop isop opname operand (Suc k) left s =
     (if isop (ckind s) then
        then_p operand (\<lambda>right. leftLoop isop opname operand k (BinaryNode (opname (pcur s)) left right))
          (advance s)
      else (Inr left, s))"

definition is_mul_op :: "tok_kind \<Rightarrow> bool" where
  "is_mul_op k \<longleftrightarrow> k = TokStar \<or> k = TokSlash \<or> k = TokPct"

definition is_add_op :: "tok_kind \<Rightarrow> bool" where
  "is_add_op k \<longleftrightarrow> k = TokPlus \<or> k = TokMinus"

definition is_cmp_op :: "tok_kind \<Rightarrow> bool" where
  "is_cmp_op k \<longleftrightarrow> k = TokEq \<or> k = TokNeq \<or> k = TokLt \<or> k = TokLte \<or> k = TokGt \<or> k = TokGte"

definition is_and_op :: "tok_kind \<Rightarrow> bool" where
  "is_and_op k \<longleftrightarrow> k = TokAnd \<or> k = TokKwAnd"

definition is_or_op :: "tok_kind \<Rightarrow> bool" where
  "is_or_op k \<longleftrightarrow> k = TokOr \<or> k = TokKwOr"

definition parseMul :: "node parser \<Rightarrow> nat \<Rightarrow> node parser" where
  "parseMul pe n = then_p (parseUnary pe n n) (leftLoop is_mul_op tvalue (parseUnary pe n n) n)"

definition parseAdd :: "node parser \<Rightarrow> nat \<Rightarrow> node parser" where
  "parseAdd pe n = then_p (parseMul pe n) (leftLoop is_add_op tvalue (parseMul pe n) n)"

definition parseCmp :: "node parser \<Rightarrow> nat \<Rightarrow> node parser" where
  "parseCmp pe n =
     then_p (parseAdd pe n) (\<lambda>left s1.
       if is_cmp_op (ckind s1) then
         then_p (parseAdd pe n) (\<lambda>right s2. (Inr (BinaryNode (cval s1) left right), s2)) (advance s1)
       else (Inr left, s1))"

fun parseNot :: "node parser \<Rightarrow> nat \<Rightarrow> nat \<Rightarrow> node parser" where
  "parseNot pe n 0 s = (Inl PFuel, s)"
| "parseNot pe n (Suc k) s =
     (if ckind s = TokNot \<or> ckind s = TokKwNot then
        nested (\<lambda>s1. then_p (parseNot pe n k) (\<lambda>child s2. (Inr (UnaryNode ''!'' child), s2)) (advance s1)) s
      else parseCmp pe n s)"

definition parseAnd :: "node parser \<Rightarrow> nat \<Rightarrow> node parser" where
  "parseAnd pe n =
     then_p (parseNot pe n n) (leftLoop is_and_op (\<lambda>_. ''&&'') (parseNot pe n n) n)"

definition parseOr :: "node parser \<Rightarrow> nat \<Rightarrow> node parser" where
  "parseOr pe n = then_p (parseAnd pe n) (leftLoop is_or_op (\<lambda>_. ''||'') (parseAnd pe n) n)"

section \<open>Expressions\<close>

fun parseExpr :: "nat \<Rightarrow> node parser" where
  "parseExpr 0 s = (Inl PFuel, s)"
| "parseExpr (Suc n) s = nested (parseOr (parseExpr n) n) s"

text \<open>
  \<open>ParseOn\<close>: the sticky error outranks the error it caused. The fuel is the depth limit plus
  the bytes of the source plus four; the totality lemma below shows it is never spent.
\<close>

definition parse_fuel :: "string \<Rightarrow> nat" where
  "parse_fuel src = maxExprDepth + length src + 4"

definition parseOn :: "string \<Rightarrow> read_budget \<Rightarrow> (parse_error, node) result \<times> read_budget" where
  "parseOn src b =
     (let s0 = \<lparr>plex = newLexer src, pcur = \<lparr>tkind = TokEOF, tvalue = []\<rparr>, perr = None,
                pdepth = 0, pbudget = b, pbegan = bspent b\<rparr>;
          (r, s) = parseExpr (parse_fuel src) (advance s0)
      in (case perr s of
            Some e \<Rightarrow> Inl e
          | None \<Rightarrow>
              (case r of
                 Inl e \<Rightarrow> Inl e
               | Inr nd \<Rightarrow> if ckind s \<noteq> TokEOF then Inl (PTrailing (cval s)) else Inr nd),
          pbudget s))"

text \<open>\<open>Parse\<close>: a budget of its own, of the count \<open>readbudget.Read\<close> gives.\<close>

definition parse :: "int \<Rightarrow> string \<Rightarrow> (parse_error, node) result" where
  "parse limit src = fst (parseOn src (NewBudget limit))"

end
