(* ===== verification/ExprParserOk.thy ===== *)
theory ExprParserOk
  imports ExprParser
begin

text \<open>
  What every parsing method keeps: the budget it spends, the sticky error, the depth, and the
  bytes still to read. The contract of an expression parser is a locale; every method is proved
  once under it, and \<open>parseExpr\<close> at any fuel is its instance.
\<close>

section \<open>The measure and the state invariant\<close>

definition mu :: "pstate \<Rightarrow> nat" where
  "mu s = length (unread (plex s)) + (if perr s = None then 1 else 0) + (if ckind s = TokEOF then 0 else 1)"

definition need :: "pstate \<Rightarrow> nat" where
  "need s = (maxExprDepth + 1 - pdepth s) + mu s"

definition tok_ok :: "token \<Rightarrow> bool" where
  "tok_ok t \<longleftrightarrow>
     (is_mul_op (tkind t) \<or> is_add_op (tkind t) \<or> is_cmp_op (tkind t) \<longrightarrow> tvalue t \<in> set binary_ops) \<and>
     (tkind t = TokIdent \<longrightarrow> ident_ok (tvalue t))"

definition st_ok :: "pstate \<Rightarrow> bool" where
  "st_ok s \<longleftrightarrow> tok_ok (pcur s) \<and> pdepth s \<le> maxExprDepth \<and> perr s \<noteq> Some PFuel"

definition evolves :: "pstate \<Rightarrow> pstate \<Rightarrow> bool" where
  "evolves s s' \<longleftrightarrow>
     blimit (pbudget s') = blimit (pbudget s) \<and> pbegan s' = pbegan s \<and>
     bspent (pbudget s) \<le> bspent (pbudget s') \<and>
     (bspent (pbudget s) \<le> blimit (pbudget s) \<longrightarrow> bspent (pbudget s') \<le> blimit (pbudget s)) \<and>
     (perr s \<noteq> None \<longrightarrow> perr s' = perr s) \<and>
     (perr s \<noteq> Some PFuel \<longrightarrow> perr s' \<noteq> Some PFuel) \<and>
     mu s' \<le> mu s"

definition reach :: "pstate \<Rightarrow> pstate \<Rightarrow> bool" where
  "reach s s' \<longleftrightarrow> evolves s s' \<and> st_ok s' \<and> pdepth s' = pdepth s"

definition moved :: "pstate \<Rightarrow> pstate \<Rightarrow> bool" where
  "moved s s' \<longleftrightarrow> perr s = None \<and> mu s' < mu s"

fun res_ok :: "bool \<Rightarrow> ('a \<Rightarrow> bool) \<Rightarrow> bool \<Rightarrow> pstate \<Rightarrow> (parse_error, 'a) result \<times> pstate \<Rightarrow> bool" where
  "res_ok Q chk strict s (Inr x, s') = (reach s s' \<and> chk x \<and> (strict \<longrightarrow> moved s s'))"
| "res_ok Q chk strict s (Inl e, s') = (evolves s s' \<and> (Q \<longrightarrow> e \<noteq> PFuel))"

lemma evolves_refl [simp, intro]: "evolves s s"
  by (simp add: evolves_def)

lemma evolves_trans [trans]: "evolves s t \<Longrightarrow> evolves t u \<Longrightarrow> evolves s u"
  by (auto simp: evolves_def)

lemma reach_refl [simp, intro]: "st_ok s \<Longrightarrow> reach s s"
  by (simp add: reach_def)

lemma reach_trans [trans]: "reach s t \<Longrightarrow> reach t u \<Longrightarrow> reach s u"
  by (auto simp: reach_def intro: evolves_trans)

lemma reach_evolves: "reach s t \<Longrightarrow> evolves s t"
  by (simp add: reach_def)

lemma reach_st_ok: "reach s t \<Longrightarrow> st_ok t"
  by (simp add: reach_def)

lemma reach_need: "reach s t \<Longrightarrow> need t \<le> need s"
  by (auto simp: reach_def evolves_def need_def)

lemma moved_reach: "moved s t \<Longrightarrow> reach t u \<Longrightarrow> moved s u"
  by (auto simp: moved_def reach_def evolves_def)

lemma reach_moved: "reach s t \<Longrightarrow> moved t u \<Longrightarrow> moved s u"
  by (auto simp: moved_def reach_def evolves_def)

lemma single_tok_ops: "single_tok c = Some k \<Longrightarrow> tok_ok \<lparr>tkind = k, tvalue = [c]\<rparr>"
  by (auto simp: single_tok_def tok_ok_def is_mul_op_def is_add_op_def is_cmp_op_def binary_ops_def
      compare_ops_def arith_ops_def split: if_splits)

lemma double_tok_ops: "double_tok c cs l = Some (Inr (t, l')) \<Longrightarrow> tok_ok t"
  by (auto simp: double_tok_def tok_ok_def is_mul_op_def is_add_op_def is_cmp_op_def binary_ops_def
      compare_ops_def arith_ops_def split: if_splits)

lemma tok_ok_plain:
  "tkind t \<in> {TokEOF, TokInt, TokFloat, TokString, TokTrue, TokFalse, TokKwAnd, TokKwOr, TokKwNot}
   \<Longrightarrow> tok_ok t"
  by (auto simp: tok_ok_def is_mul_op_def is_add_op_def is_cmp_op_def)

lemma readNumber_tok_ok: "readNumber l = (t, l') \<Longrightarrow> tok_ok t"
  by (auto simp: readNumber_def tok_ok_def is_mul_op_def is_add_op_def is_cmp_op_def
      split: prod.splits if_splits)

lemma readIdent_tok_ok:
  assumes "readIdent l = (t, l')" "unread l = c # cs" "isIdentStart c"
  shows "tok_ok t"
proof -
  let ?v = "takeWhile isIdentCont (unread l)"
  have t: "t = \<lparr>tkind = ident_kind ?v, tvalue = ?v\<rparr>"
    using assms(1) by (simp add: readIdent_def Let_def)
  have "ident_ok ?v"
    using assms(2,3) by (auto simp: ident_ok_def isIdentCont_def dest: set_takeWhileD)
  moreover have "ident_kind ?v \<in> {TokTrue, TokFalse, TokKwAnd, TokKwOr, TokKwNot, TokIdent}"
    by (simp add: ident_kind_def)
  ultimately show ?thesis
    by (auto simp: t tok_ok_def is_mul_op_def is_add_op_def is_cmp_op_def)
qed

lemma readString_tok_ok: "readString q l = Inr (t, l') \<Longrightarrow> tok_ok t"
  by (rule tok_ok_plain) (auto simp: readString_def split: option.splits)

lemma lex_next_tok_ok:
  assumes "lex_next l = Inr (t, l')"
  shows "tok_ok t"
proof (cases "unread (skip_space (unread l) (offset l))")
  case Nil
  with assms show ?thesis by (intro tok_ok_plain) (auto simp: lex_next_def)
next
  case (Cons c cs)
  with assms show ?thesis
    by (auto simp: lex_next_def Let_def split: option.splits if_splits
        intro: single_tok_ops double_tok_ops readNumber_tok_ok readIdent_tok_ok readString_tok_ok)
qed

lemma advance_cases:
  obtains "perr s \<noteq> None" "advance s = s"
  | e where "perr s = None" "e \<noteq> PFuel" "advance s = s\<lparr>perr := Some e\<rparr>"
  | t l where "perr s = None" "bspent (pbudget s) < blimit (pbudget s)" "lex_next (plex s) = Inr (t, l)"
      "advance s = s\<lparr>plex := l, pcur := t, pbudget := (pbudget s)\<lparr>bspent := bspent (pbudget s) + 1\<rparr>\<rparr>"
proof (cases "perr s")
  case (Some a)
  then show ?thesis using that(1) by (simp add: advance_def)
next
  case None
  show ?thesis
  proof (cases "blimit (pbudget s) \<le> bspent (pbudget s)")
    case True
    with None show ?thesis using that(2) [of "PBudget _ _"] by (simp add: advance_def)
  next
    case False
    with None show ?thesis using that(2) [of "PLex _"] that(3)
      by (cases "lex_next (plex s)") (auto simp: advance_def)
  qed
qed

lemma reach_advance:
  assumes "st_ok s"
  shows "reach s (advance s)"
proof (cases s rule: advance_cases)
  case (3 t l)
  from lex_next_ok [OF 3(3)] lex_next_tok_ok [OF 3(3)] 3(2) assms show ?thesis
    by (simp add: 3(1,4) reach_def evolves_def st_ok_def mu_def lex_step_ok_def split: if_splits)
qed (use assms in \<open>auto simp: reach_def evolves_def st_ok_def mu_def\<close>)

lemma moved_advance:
  assumes "perr s = None" "ckind s \<noteq> TokEOF"
  shows "moved s (advance s)"
proof (cases s rule: advance_cases)
  case (3 t l)
  from lex_next_ok [OF 3(3)] assms show ?thesis
    by (simp add: 3 moved_def mu_def lex_step_ok_def split: if_splits)
qed (use assms in \<open>auto simp: moved_def mu_def\<close>)

lemma advance_stuck [simp]: "perr s \<noteq> None \<Longrightarrow> advance s = s"
  by (auto simp: advance_def)

lemma reach_advance_from [intro]: "reach s t \<Longrightarrow> reach s (advance t)"
  by (metis reach_advance reach_st_ok reach_trans)

lemma moved_advance_from [intro]: "moved s t \<Longrightarrow> reach s t \<Longrightarrow> moved s (advance t)"
  by (metis moved_reach reach_advance reach_st_ok)

section \<open>Composition\<close>

lemma res_ok_then:
  assumes m: "res_ok Q chk1 st1 s (m s0)"
    and f: "\<And>x s1. reach s s1 \<Longrightarrow> chk1 x \<Longrightarrow> (st1 \<Longrightarrow> moved s s1) \<Longrightarrow> res_ok Q chk2 st2 s (f x s1)"
  shows "res_ok Q chk2 st2 s (then_p m f s0)"
  using m f by (cases "m s0"; cases "fst (m s0)") (auto simp: then_p_def)

lemma res_ok_weaken:
  "res_ok Q chk st s R \<Longrightarrow> (Q' \<Longrightarrow> Q) \<Longrightarrow> (st' \<Longrightarrow> st) \<Longrightarrow> (\<And>x. chk x \<Longrightarrow> chk' x) \<Longrightarrow> res_ok Q' chk' st' s R"
  by (cases R; cases "fst R") auto

lemma res_ok_from:
  assumes "reach s s1" "res_ok Q chk st s1 R"
  shows "res_ok Q chk st s R"
  using assms by (cases R; cases "fst R")
    (auto intro: reach_trans reach_moved evolves_trans dest: reach_evolves)

lemma res_ok_moved:
  assumes "moved s s1" "reach s s1" "res_ok Q chk False s1 R"
  shows "res_ok Q chk True s R"
  using assms by (cases R; cases "fst R")
    (auto intro: reach_trans moved_reach evolves_trans dest: reach_evolves)

lemma res_ok_strict:
  "res_ok Q chk st s R \<Longrightarrow> (\<And>x s'. R = (Inr x, s') \<Longrightarrow> moved s s') \<Longrightarrow> res_ok Q chk st' s R"
  by (cases R; cases "fst R") auto

lemma evolves_depth [simp]: "evolves s (t\<lparr>pdepth := d\<rparr>) = evolves s t" "evolves (s\<lparr>pdepth := d\<rparr>) t = evolves s t"
  by (simp_all add: evolves_def mu_def)

lemma moved_depth [simp]: "moved s (t\<lparr>pdepth := d\<rparr>) = moved s t" "moved (s\<lparr>pdepth := d\<rparr>) t = moved s t"
  by (simp_all add: moved_def mu_def)

definition deeper :: "pstate \<Rightarrow> pstate" where
  "deeper s = s\<lparr>pdepth := pdepth s + 1\<rparr>"

lemma deeper_simps [simp]:
  "mu (deeper s) = mu s" "pcur (deeper s) = pcur s" "perr (deeper s) = perr s"
  "plex (deeper s) = plex s" "pdepth (deeper s) = pdepth s + 1"
  by (simp_all add: deeper_def mu_def)

lemma deeper_same: "evolves (deeper s) t = evolves s t" "moved (deeper s) t = moved s t"
  by (simp_all add: deeper_def)

lemma enter_cases:
  assumes "st_ok s"
  obtains "enter s = (Inl PDepth, deeper s)"
  | "enter s = (Inr (), deeper s)" "st_ok (deeper s)" "Suc (need (deeper s)) = need s"
proof (cases "maxExprDepth < pdepth s + 1")
  case True
  then show ?thesis using that(1) by (simp add: enter_def deeper_def)
next
  case False
  then have "enter s = (Inr (), deeper s)" by (simp add: enter_def deeper_def)
  moreover have "st_ok (deeper s)" using False assms by (simp add: st_ok_def)
  moreover have "Suc (need (deeper s)) = need s" using False by (simp add: need_def)
  ultimately show ?thesis using that(2) by blast
qed

lemma res_ok_leave:
  assumes "res_ok Q chk st (deeper s) (r, s2)" "st_ok s"
  shows "res_ok Q chk st s (r, leave s2)"
  using assms by (cases r) (auto simp: leave_def reach_def st_ok_def deeper_same)

lemma res_ok_nested:
  assumes s: "st_ok s"
    and body: "st_ok (deeper s) \<Longrightarrow> Suc (need (deeper s)) = need s \<Longrightarrow> res_ok Q chk st (deeper s) (body (deeper s))"
  shows "res_ok Q chk st s (nested body s)"
  using s
proof (cases s rule: enter_cases)
  case 1
  then show ?thesis by (simp add: nested_def deeper_def)
next
  case 2
  with body res_ok_leave [OF _ s] show ?thesis
    by (cases "body (deeper s)") (simp add: nested_def)
qed

section \<open>Loops without subexpressions\<close>

lemma pathLoop_ok:
  "reach s0 s \<Longrightarrow> (Q \<Longrightarrow> mu s < k) \<Longrightarrow> \<forall>seg \<in> set path. ident_ok seg \<Longrightarrow>
   res_ok Q (\<lambda>p. \<forall>seg \<in> set p. ident_ok seg) False s0 (pathLoop k path s)"
proof (induction k arbitrary: path s)
  case 0
  then show ?case by (auto dest: reach_evolves)
next
  case (Suc k)
  let ?s1 = "advance s"
  have r1: "reach s0 ?s1" and r2: "reach s0 (advance ?s1)" using Suc.prems(1) by blast+
  show ?case
  proof (cases "ckind s = TokDot \<and> ckind ?s1 = TokIdent")
    case True
    then have "perr s = None" by (metis advance_stuck tok_kind.distinct(7) tok_kind.simps)
    with True have "mu ?s1 < mu s" using moved_advance [of s] by (simp add: moved_def)
    moreover have "mu (advance ?s1) \<le> mu ?s1"
      using reach_advance [of ?s1] r1 by (auto simp: reach_def evolves_def)
    ultimately have "Q \<Longrightarrow> mu (advance ?s1) < k" using Suc.prems(2) by linarith
    moreover have "ident_ok (cval ?s1)" using reach_st_ok [OF r1] True by (simp add: st_ok_def tok_ok_def)
    ultimately show ?thesis using Suc.IH [OF r2] True Suc.prems(3) by (simp add: Let_def)
  next
    case False
    with Suc.prems r1 show ?thesis by (auto simp: Let_def dest: reach_evolves)
  qed
qed

lemma paramLoop_ok:
  "reach s0 s \<Longrightarrow> (Q \<Longrightarrow> mu s < k) \<Longrightarrow> res_ok Q (\<lambda>_. True) False s0 (paramLoop k params s)"
proof (induction k arbitrary: params s)
  case 0
  then show ?case by (auto dest: reach_evolves)
next
  case (Suc k)
  let ?s1 = "advance s"
  have r1: "reach s0 ?s1" and r2: "reach s0 (advance ?s1)" using Suc.prems(1) by blast+
  show ?case
  proof (cases "ckind s = TokIdent \<and> ckind ?s1 = TokComma")
    case True
    then have "perr s = None" by (metis advance_stuck tok_kind.simps)
    with True have "mu ?s1 < mu s" using moved_advance [of s] by (simp add: moved_def)
    moreover have "mu (advance ?s1) \<le> mu ?s1"
      using reach_advance [of ?s1] r1 by (auto simp: reach_def evolves_def)
    ultimately have "Q \<Longrightarrow> mu (advance ?s1) < k" using Suc.prems(2) by linarith
    with Suc.IH [OF r2] True show ?thesis by (simp add: Let_def)
  next
    case False
    with Suc.prems(1) r1 show ?thesis by (auto simp: Let_def dest: reach_evolves)
  qed
qed

section \<open>The contract of an expression parser\<close>

text \<open>
  \<open>pe\<close> is the parser the methods call for a nested expression, good for \<open>n\<close> units of fuel. Each
  method at that fuel is proved from the contract alone; the last lemma of the block says that
  one more level of nesting satisfies it again.
\<close>

locale expr_parser =
  fixes pe :: "node parser" and n :: nat
  assumes pe_ok: "st_ok s \<Longrightarrow> res_ok (need s \<le> n) wf_node True s (pe s)"
begin

lemma pe_from:
  assumes "reach s s1" "Q \<Longrightarrow> need s \<le> n"
  shows "res_ok Q wf_node True s (pe s1)"
  using assms by (intro res_ok_from [OF assms(1)] res_ok_weaken [OF pe_ok])
    (auto dest: reach_st_ok reach_need)

lemma next_fuel:
  assumes "reach s t" "moved s t" "Q \<Longrightarrow> need s \<le> n \<and> mu s < Suc k"
  shows "Q \<Longrightarrow> need t \<le> n \<and> mu t < k"
  using assms reach_need [OF assms(1)] by (auto simp: moved_def)

lemma start_fuel:
  assumes "reach s t" "moved s t" "Q \<Longrightarrow> need s \<le> n"
  shows "Q \<Longrightarrow> need t \<le> n \<and> mu t < n"
  using assms reach_need [OF assms(1)] by (auto simp: moved_def need_def)

lemma commaLoop_ok:
  "st_ok s \<Longrightarrow> (Q \<Longrightarrow> need s \<le> n \<and> mu s < k) \<Longrightarrow> \<forall>a \<in> set acc. wf_node a \<Longrightarrow>
   res_ok Q (\<lambda>as. \<forall>a \<in> set as. wf_node a) True s (commaLoop pe k acc s)"
proof (induction k arbitrary: acc s)
  case 0
  then show ?case by auto
next
  case (Suc k)
  have "res_ok Q wf_node True s (pe s)"
    using Suc.prems by (intro pe_from) auto
  then show ?case
    unfolding commaLoop.simps
  proof (rule res_ok_then)
    fix el s1
    assume s1: "reach s s1" "wf_node el" "True \<Longrightarrow> moved s s1"
    then have t: "reach s (advance s1)" "moved s (advance s1)"
      using moved_reach reach_advance reach_st_ok by blast+
    note IH = Suc.IH [OF reach_st_ok [OF t(1)] next_fuel [OF t Suc.prems(2)], where acc = "acc @ [el]"]
    show "res_ok Q (\<lambda>as. \<forall>a \<in> set as. wf_node a) True s
       (if ckind s1 = TokComma then commaLoop pe k (acc @ [el]) (advance s1) else (Inr (acc @ [el]), s1))"
      using s1 Suc.prems(3) res_ok_from [OF t(1) IH] by auto
  qed
qed

lemma commaList_ok:
  assumes "reach s0 s" "moved s0 s" "Q \<Longrightarrow> need s0 \<le> n"
  shows "res_ok Q (\<lambda>as. \<forall>a \<in> set as. wf_node a) True s0 (commaList pe n stop s)"
  using assms res_ok_from [OF assms(1) commaLoop_ok [OF reach_st_ok [OF assms(1)] start_fuel [OF assms]]]
  by (auto simp: commaList_def)

lemma pairLoop_ok:
  "st_ok s \<Longrightarrow> (Q \<Longrightarrow> need s \<le> n \<and> mu s < k) \<Longrightarrow>
   distinct keys \<and> length keys = length vals \<and> (\<forall>v \<in> set vals. wf_node v) \<Longrightarrow>
   res_ok Q (\<lambda>(ks, vs). wf_node (ObjectLit ks vs)) True s (pairLoop pe k keys vals s)"
proof (induction k arbitrary: keys vals s)
  case 0
  then show ?case by auto
next
  case (Suc k)
  let ?s1 = "advance s" and ?s2 = "advance (advance s)"
  have r: "reach s ?s1" "reach s ?s2" using Suc.prems(1) by blast+
  have "res_ok Q wf_node True s (pe ?s2)"
    using Suc.prems r by (intro pe_from) auto
  then have "res_ok Q (\<lambda>(ks, vs). wf_node (ObjectLit ks vs)) True s
    (then_p pe (\<lambda>val s2.
            if cval s \<in> set keys then (Inl (PObjectRepeats (cval s)), s2)
            else if ckind s2 = TokComma then pairLoop pe k (keys @ [cval s]) (vals @ [val]) (advance s2)
            else (Inr (keys @ [cval s], vals @ [val]), s2)) ?s2)"
  proof (rule res_ok_then)
    fix val t
    assume t: "reach s t" "wf_node val" "True \<Longrightarrow> moved s t"
    then have u: "reach s (advance t)" "moved s (advance t)"
      using moved_reach reach_advance reach_st_ok by blast+
    note IH = Suc.IH [OF reach_st_ok [OF u(1)] next_fuel [OF u Suc.prems(2)],
        where keys = "keys @ [cval s]" and vals = "vals @ [val]"]
    show "res_ok Q (\<lambda>(ks, vs). wf_node (ObjectLit ks vs)) True s
      (if cval s \<in> set keys then (Inl (PObjectRepeats (cval s)), t)
            else if ckind t = TokComma then pairLoop pe k (keys @ [cval s]) (vals @ [val]) (advance t)
            else (Inr (keys @ [cval s], vals @ [val]), t))"
      using t Suc.prems(3) res_ok_from [OF u(1) IH] by (auto dest: reach_evolves)
  qed
  with r Suc.prems(1) show ?case by (auto simp: Let_def dest: reach_evolves)
qed

lemma pairList_ok:
  assumes "reach s0 s" "moved s0 s" "Q \<Longrightarrow> need s0 \<le> n"
  shows "res_ok Q (\<lambda>(ks, vs). wf_node (ObjectLit ks vs)) True s0 (pairList pe n s)"
  using assms res_ok_from [OF assms(1) pairLoop_ok [OF reach_st_ok [OF assms(1)] start_fuel [OF assms]]]
  by (auto simp: pairList_def)

lemmas step_intros = moved_reach reach_advance reach_st_ok reach_trans

lemma parseListLit_ok:
  assumes "st_ok s" "perr s = None" "ckind s = TokLBracket" "Q \<Longrightarrow> need s \<le> n"
  shows "res_ok Q wf_node True s (parseListLit pe n s)"
  unfolding parseListLit_def Let_def
proof (rule res_ok_nested [OF assms(1)], rule res_ok_then)
  assume d: "st_ok (deeper s)" "Suc (need (deeper s)) = need s"
  have a: "reach (deeper s) (advance (deeper s))" "moved (deeper s) (advance (deeper s))"
    using d assms moved_advance [of "deeper s"] by (auto intro: reach_advance)
  show "res_ok Q (\<lambda>as. \<forall>a \<in> set as. wf_node a) True (deeper s) (commaList pe n TokRBracket (advance (deeper s)))"
    by (rule commaList_ok [OF a]) (use assms d in auto)
qed (auto dest: reach_evolves intro: step_intros)

lemma parseObjectLit_ok:
  assumes "st_ok s" "perr s = None" "ckind s = TokLBrace" "Q \<Longrightarrow> need s \<le> n"
  shows "res_ok Q wf_node True s (parseObjectLit pe n s)"
  unfolding parseObjectLit_def Let_def
proof (rule res_ok_nested [OF assms(1)], rule res_ok_then)
  assume d: "st_ok (deeper s)" "Suc (need (deeper s)) = need s"
  have a: "reach (deeper s) (advance (deeper s))" "moved (deeper s) (advance (deeper s))"
    using d assms moved_advance [of "deeper s"] by (auto intro: reach_advance)
  show "res_ok Q (\<lambda>(ks, vs). wf_node (ObjectLit ks vs)) True (deeper s) (pairList pe n (advance (deeper s)))"
    by (rule pairList_ok [OF a]) (use assms d in auto)
qed (auto dest: reach_evolves intro: step_intros)

lemma parseFuncCallArgs_ok:
  assumes "reach s0 s" "moved s0 s" "Q \<Longrightarrow> need s0 \<le> n" "lookup_builtin f \<noteq> None"
  shows "res_ok Q wf_node True s0 (parseFuncCallArgs pe n f s)"
  unfolding parseFuncCallArgs_def Let_def
proof (rule res_ok_then)
  have a: "reach s0 (advance s)" "moved s0 (advance s)"
    using assms by (blast intro: step_intros)+
  show "res_ok Q (\<lambda>as. \<forall>a \<in> set as. wf_node a) True s0 (commaList pe n TokRParen (advance s))"
    by (rule commaList_ok [OF a assms(3)])
next
  fix args t
  assume t: "reach s0 t" "\<forall>a \<in> set args. wf_node a" "True \<Longrightarrow> moved s0 t"
  then have "reach s0 (advance t)" "moved s0 (advance t)" by (blast intro: step_intros)+
  with t assms(4) show "res_ok Q wf_node True s0
    (if ckind t \<noteq> TokRParen then (Inl (PCallClose f (cval t)), t)
     else case checkArity f (length args) of None \<Rightarrow> (Inr (FuncCallNode f args), advance t)
          | Some e \<Rightarrow> (Inl (PArity e), advance t))"
    by (auto simp: call_ok_def dest: reach_evolves split: option.splits)
qed

lemma parseLambdaParams_ok:
  assumes "reach s0 s" "Q \<Longrightarrow> mu s < n"
  shows "res_ok Q (\<lambda>_. True) False s0 (parseLambdaParams n ctx s)"
proof -
  have a: "reach s0 (advance s)" using assms by blast
  have "Q \<Longrightarrow> mu (advance s) < n"
    using assms reach_advance [OF reach_st_ok [OF assms(1)]] by (force simp: reach_def evolves_def)
  note p = paramLoop_ok [OF a this]
  have "res_ok Q (\<lambda>_. True) False s0
      (then_p (paramLoop n []) (\<lambda>params s1.
          if ckind s1 \<noteq> TokRParen then (Inl (PLambdaParams ctx (cval s1)), s1)
          else (Inr params, advance s1)) (advance s))"
    by (rule res_ok_then, rule p) (auto dest: reach_evolves)
  with assms a show ?thesis by (auto simp: parseLambdaParams_def dest: reach_evolves)
qed

lemma parseLambda_ok:
  assumes "reach s0 s" "moved s0 s" "Q \<Longrightarrow> need s0 \<le> n"
  shows "res_ok Q (\<lambda>(ps, body). wf_node body \<and> (\<forall>p \<in> set ps. \<not> isEvalNamespace p)) True s0 (parseLambda pe n ctx s)"
  unfolding parseLambda_def
proof (rule res_ok_then)
  show "res_ok Q (\<lambda>_. True) False s0 (parseLambdaParams n ctx s)"
    by (rule parseLambdaParams_ok) (use assms start_fuel [OF assms] in auto)
next
  fix params s1
  assume s1: "reach s0 s1"
  then have a: "reach s0 (advance s1)" by blast
  have "res_ok Q (\<lambda>(ps, body). wf_node body \<and> (\<forall>p \<in> set ps. \<not> isEvalNamespace p)) True s0
      (then_p pe (\<lambda>body s3. (Inr (params, body), s3)) (advance s1))" if "find isEvalNamespace params = None"
    by (rule res_ok_then, rule pe_from [OF a]) (use assms that in \<open>auto simp: find_None_iff\<close>)
  with s1 a show "res_ok Q (\<lambda>(ps, body). wf_node body \<and> (\<forall>p \<in> set ps. \<not> isEvalNamespace p)) True s0
      (if ckind s1 \<noteq> TokArrow then (Inl (PLambdaArrow ctx (cval s1)), s1)
       else let s2 = advance s1 in
         (case find isEvalNamespace params of
            Some pm \<Rightarrow> (Inl (PLambdaReserved pm), s2)
          | None \<Rightarrow> then_p pe (\<lambda>body s3. (Inr (params, body), s3)) s2))"
    by (auto simp: Let_def dest: reach_evolves split: option.splits)
qed

lemma parseInit_ok:
  assumes "reach s0 s" "Q \<Longrightarrow> need s0 \<le> n"
  shows "res_ok Q (\<lambda>i. case i of None \<Rightarrow> f \<noteq> ''reduce'' | Some i \<Rightarrow> f = ''reduce'' \<and> wf_node i) False s0
           (parseInit pe f s)"
proof (cases "f = ''reduce''")
  case True
  have "res_ok Q (\<lambda>i. case i of None \<Rightarrow> f \<noteq> ''reduce'' | Some i \<Rightarrow> f = ''reduce'' \<and> wf_node i) False s0
      (then_p pe (\<lambda>i s1. if ckind s1 \<noteq> TokComma then (Inl (PLambdaComma f (cval s1)), s1)
          else (Inr (Some i), advance s1)) s)"
    by (rule res_ok_then, rule pe_from [OF assms]) (use True in \<open>auto dest: reach_evolves\<close>)
  with True show ?thesis unfolding parseInit_def by simp
qed (use assms in \<open>auto simp: parseInit_def\<close>)

lemma parseLambdaComb_ok:
  assumes "st_ok s" "perr s = None" "ckind s = TokLParen" "Q \<Longrightarrow> need s \<le> n" "isLambdaComb f"
  shows "res_ok Q wf_node True s (parseLambdaComb pe n f s)"
  unfolding parseLambdaComb_def
proof (rule res_ok_nested [OF assms(1)], rule res_ok_then)
  assume d: "st_ok (deeper s)" "Suc (need (deeper s)) = need s"
  let ?s = "deeper s"
  have Q: "Q \<Longrightarrow> need ?s \<le> n" using assms d by auto
  have a: "reach ?s (advance ?s)" using d by (blast intro: reach_advance)
  show "res_ok Q wf_node True ?s (pe (advance ?s))" by (rule pe_from [OF a Q])
  fix coll s1
  assume s1: "reach ?s s1" "wf_node coll" "True \<Longrightarrow> moved ?s s1"
  then have b: "reach ?s (advance s1)" "moved ?s (advance s1)" by (blast intro: step_intros)+
  let ?k = "\<lambda>init. then_p (parseLambda pe n f) (\<lambda>(params, body) s3.
               let want = (if f = ''reduce'' then 2 else 1) in
               if length params \<noteq> want then (Inl (PLambdaArity f want (length params)), s3)
               else if ckind s3 \<noteq> TokRParen then (Inl (PLambdaClose f (cval s3)), s3)
               else (Inr (LambdaCombNode f coll init params body), advance s3))"
  have "res_ok Q wf_node True ?s (then_p (parseInit pe f) ?k (advance s1))"
  proof (rule res_ok_then, rule res_ok_moved [OF b(2,1)], rule parseInit_ok)
    show "reach (advance s1) (advance s1)" "Q \<Longrightarrow> need (advance s1) \<le> n"
      using b(1) Q by (auto dest: reach_st_ok reach_need)
    fix init s2
    assume i: "reach ?s s2" "case init of None \<Rightarrow> f \<noteq> ''reduce'' | Some i \<Rightarrow> f = ''reduce'' \<and> wf_node i"
      "True \<Longrightarrow> moved ?s s2"
    then have m: "moved ?s s2" by simp
    show "res_ok Q wf_node True ?s (?k init s2)"
    proof (rule res_ok_then, rule parseLambda_ok [OF i(1) m Q])
    qed (use s1(2) i assms(5) in \<open>auto simp: Let_def dest: reach_evolves intro: step_intros split: option.splits\<close>)
  qed
  with s1 show "res_ok Q wf_node True ?s
     (if ckind s1 \<noteq> TokComma then (Inl (PLambdaComma f (cval s1)), s1)
      else then_p (parseInit pe f) ?k (advance s1))"
    by (auto dest: reach_evolves)
qed

lemma parseIdent_ok:
  assumes "st_ok s" "perr s = None" "ckind s = TokIdent" "Q \<Longrightarrow> need s \<le> n"
  shows "res_ok Q wf_node True s (parseIdent pe n s)"
proof -
  let ?s1 = "advance s"
  have a: "reach s ?s1" "moved s ?s1" using assms by (auto intro: reach_advance moved_advance)
  have Q: "Q \<Longrightarrow> need ?s1 \<le> n \<and> mu ?s1 < n" using start_fuel [OF a assms(4)] .
  have p: "res_ok Q wf_node True s (then_p (pathLoop n []) (\<lambda>path s2. (Inr (PathNode (cval s) path), s2)) ?s1)"
    by (rule res_ok_moved [OF a(2,1)], rule res_ok_then, rule pathLoop_ok)
      (use a Q assms(1,3) in \<open>auto simp: st_ok_def tok_ok_def dest: reach_st_ok\<close>)
  have c: "res_ok Q wf_node True s (parseFuncCallArgs pe n (cval s) ?s1)"
    if "lookup_builtin (cval s) \<noteq> None"
    by (rule parseFuncCallArgs_ok [OF a assms(4) that])
  have l: "res_ok Q wf_node True s (parseLambdaComb pe n (cval s) ?s1)"
    if h: "isLambdaComb (cval s)" "ckind ?s1 = TokLParen"
  proof (cases "perr ?s1")
    case None
    show ?thesis
      by (rule res_ok_from [OF a(1)], rule res_ok_weaken [where st = True],
          rule parseLambdaComb_ok [where Q = Q]) (use a Q h None in \<open>auto dest: reach_st_ok\<close>)
  next
    case (Some e)
    with h(2) assms(3) show ?thesis
      by (cases s rule: advance_cases) (use assms in auto)
  qed
  from p c l a show ?thesis by (auto simp: parseIdent_def Let_def dest: reach_evolves)
qed

lemma parseParen_ok:
  assumes "st_ok s" "perr s = None" "ckind s = TokLParen" "Q \<Longrightarrow> need s \<le> n"
  shows "res_ok Q wf_node True s (parseParen pe s)"
  unfolding parseParen_def
  by (rule res_ok_then, rule pe_from) (use assms in \<open>auto intro: reach_advance dest: reach_evolves\<close>)

lemma parsePrimary_ok: "expr_parser (parsePrimary pe n) n"
proof
  fix s
  assume s: "st_ok s"
  show "res_ok (need s \<le> n) wf_node True s (parsePrimary pe n s)"
  proof (cases "perr s")
    case (Some e)
    with s show ?thesis by (simp add: parsePrimary_def st_ok_def)
  next
    case None
    have a: "reach s (advance s)" using s by (rule reach_advance)
    have m: "ckind s \<noteq> TokEOF \<Longrightarrow> moved s (advance s)" using None by (rule moved_advance)
    show ?thesis
      using None a m parseParen_ok [OF s None] parseListLit_ok [OF s None]
        parseObjectLit_ok [OF s None] parseIdent_ok [OF s None]
      by (simp add: parsePrimary_def split: tok_kind.splits option.splits)
  qed
qed

lemma reach_leave: "reach (deeper s) t \<Longrightarrow> st_ok s \<Longrightarrow> reach s (leave t)"
  by (auto simp: reach_def leave_def st_ok_def deeper_same)

lemma moved_leave: "moved (deeper s) t \<Longrightarrow> moved s (leave t)"
  by (auto simp: leave_def deeper_same)

lemma evolves_leave: "evolves (deeper s) t \<Longrightarrow> evolves s (leave t)"
  by (auto simp: leave_def deeper_same)

lemma postfixLoop_ok:
  "st_ok s \<Longrightarrow> (Q \<Longrightarrow> need s \<le> n \<and> mu s < k) \<Longrightarrow> wf_node nd \<Longrightarrow>
   res_ok Q wf_node False s (postfixLoop pe k nd s)"
proof (induction k arbitrary: nd s)
  case 0
  then show ?case by auto
next
  case (Suc k)
  let ?s1 = "deeper s"
  let ?s2 = "advance ?s1"
  show ?case
  proof (cases "ckind s = TokLBracket \<or> ckind s = TokDot")
    case False
    with Suc.prems show ?thesis by auto
  next
    case op: True
    show ?thesis
      using Suc.prems(1)
    proof (cases s rule: enter_cases)
      case 1
      with op show ?thesis by (simp add: deeper_def)
    next
      case 2
      have again: "res_ok Q wf_node False s (postfixLoop pe k nd' (leave t))"
        if t: "reach ?s1 t" "moved ?s1 t" and nd': "wf_node nd'" for nd' t
      proof -
        have r: "reach s (leave t)" "moved s (leave t)"
          using t Suc.prems(1) by (auto intro: reach_leave moved_leave)
        from res_ok_from [OF r(1) Suc.IH [OF reach_st_ok [OF r(1)] next_fuel [OF r Suc.prems(2)] nd']]
        show ?thesis by simp
      qed
      have a: "reach ?s1 ?s2" using 2 by (intro reach_advance)
      show ?thesis
      proof (cases "ckind s = TokDot")
        case dot: True
        have "moved ?s1 (advance ?s2)" if "ckind ?s2 = TokIdent"
        proof -
          have "perr ?s1 = None" using that dot by (cases "perr ?s1") auto
          with dot moved_advance [of ?s1] have "moved ?s1 ?s2" by simp
          with a show ?thesis by blast
        qed
        moreover have "reach ?s1 (advance ?s2)" using a by blast
        ultimately show ?thesis
          using again [of "advance ?s2"] dot a 2 Suc.prems(3)
          by (auto simp: Let_def dest: reach_evolves intro: evolves_leave)
      next
        case False
        have p: "res_ok Q wf_node True ?s1 (pe ?s2)"
          by (rule pe_from [OF a]) (use 2 Suc.prems(2) in auto)
        obtain r t where pe: "pe ?s2 = (r, t)" by fastforce
        show ?thesis
        proof (cases r)
          case (Inl e)
          with p pe op False 2 show ?thesis by (auto intro: evolves_leave)
        next
          case (Inr idx)
          with p pe have t: "reach ?s1 t" "wf_node idx" "moved ?s1 t" by auto
          then have "reach ?s1 (advance t)" "moved ?s1 (advance t)" by blast+
          with again [of "advance t" "IndexNode nd idx"] pe op False 2 t Suc.prems(3) Inr show ?thesis
            by (auto dest: reach_evolves intro: evolves_leave)
        qed
      qed
    qed
  qed
qed

lemma parsePostfix_ok: "expr_parser (parsePostfix pe n) n"
proof
  fix s
  assume s: "st_ok s"
  show "res_ok (need s \<le> n) wf_node True s (parsePostfix pe n s)"
    unfolding parsePostfix_def
  proof (rule res_ok_then, rule expr_parser.pe_ok [OF parsePrimary_ok s])
    fix nd s1
    assume s1: "reach s s1" "wf_node nd" "True \<Longrightarrow> moved s s1"
    then have m: "moved s s1" by simp
    show "res_ok (need s \<le> n) wf_node True s (postfixLoop pe n nd s1)"
      by (rule res_ok_moved [OF m s1(1)], rule postfixLoop_ok)
        (use s1 start_fuel [OF s1(1) m] in \<open>auto dest: reach_st_ok\<close>)
  qed
qed

end

text \<open>A level of binary operators over any parser that keeps the contract keeps it.\<close>

definition ops_ok :: "(tok_kind \<Rightarrow> bool) \<Rightarrow> (token \<Rightarrow> string) \<Rightarrow> bool" where
  "ops_ok isop opname \<longleftrightarrow> (\<forall>t. tok_ok t \<longrightarrow> isop (tkind t) \<longrightarrow> opname t \<in> set binary_ops)"

context expr_parser
begin

lemma leftLoop_ok:
  assumes ops: "ops_ok isop opname"
  shows "st_ok s \<Longrightarrow> (Q \<Longrightarrow> need s \<le> n \<and> mu s < k) \<Longrightarrow> wf_node left \<Longrightarrow>
    res_ok Q wf_node False s (leftLoop isop opname pe k left s)"
proof (induction k arbitrary: left s)
  case 0
  then show ?case by auto
next
  case (Suc k)
  have a: "reach s (advance s)" using Suc.prems(1) by (rule reach_advance)
  have op: "isop (ckind s) \<Longrightarrow> opname (pcur s) \<in> set binary_ops"
    using ops Suc.prems(1) by (simp add: ops_ok_def st_ok_def)
  have "res_ok Q wf_node False s
      (then_p pe (\<lambda>right. leftLoop isop opname pe k (BinaryNode (opname (pcur s)) left right)) (advance s))"
    if o: "isop (ckind s)"
  proof (rule res_ok_then, rule pe_from [OF a])
    show "Q \<Longrightarrow> need s \<le> n" using Suc.prems(2) by simp
    fix right s1
    assume s1: "reach s s1" "wf_node right" "True \<Longrightarrow> moved s s1"
    then have m: "moved s s1" by simp
    show "res_ok Q wf_node False s (leftLoop isop opname pe k (BinaryNode (opname (pcur s)) left right) s1)"
      by (rule res_ok_from [OF s1(1) Suc.IH [OF reach_st_ok [OF s1(1)] next_fuel [OF s1(1) m Suc.prems(2)]]])
        (use s1 op o Suc.prems(3) in auto)
  qed
  with Suc.prems show ?case by auto
qed

lemma level_ok:
  assumes ops: "ops_ok isop opname"
  shows "expr_parser (then_p pe (leftLoop isop opname pe n)) n"
proof
  fix s
  assume s: "st_ok s"
  show "res_ok (need s \<le> n) wf_node True s (then_p pe (leftLoop isop opname pe n) s)"
  proof (rule res_ok_then, rule pe_ok [OF s])
    fix nd s1
    assume s1: "reach s s1" "wf_node nd" "True \<Longrightarrow> moved s s1"
    then have m: "moved s s1" by simp
    show "res_ok (need s \<le> n) wf_node True s (leftLoop isop opname pe n nd s1)"
      by (rule res_ok_moved [OF m s1(1)], rule leftLoop_ok [OF ops])
        (use s1 start_fuel [OF s1(1) m] in \<open>auto dest: reach_st_ok\<close>)
  qed
qed

end

text \<open>A prefix operator that nests once per occurrence, in front of such a parser.\<close>

lemma prefix_ok:
  assumes s: "st_ok s" and k: "Q \<Longrightarrow> need s \<le> Suc k" and op: "op \<in> set unary_ops"
    and rest: "\<And>t. st_ok t \<Longrightarrow> (Q \<Longrightarrow> need t \<le> k) \<Longrightarrow> res_ok Q wf_node True t (p t)"
  shows "res_ok Q wf_node True s
    (nested (\<lambda>s1. then_p p (\<lambda>child s2. (Inr (UnaryNode op child), s2)) (advance s1)) s)"
proof (rule res_ok_nested [OF s], rule res_ok_then)
  assume d: "st_ok (deeper s)" "Suc (need (deeper s)) = need s"
  have a: "reach (deeper s) (advance (deeper s))" using d by (intro reach_advance)
  show "res_ok Q wf_node True (deeper s) (p (advance (deeper s)))"
    by (rule res_ok_from [OF a], rule rest)
      (use a k d reach_need [OF a] in \<open>auto dest: reach_st_ok\<close>)
qed (use op in auto)

context expr_parser
begin

lemma parseUnary_step:
  "st_ok s \<Longrightarrow> (Q \<Longrightarrow> need s \<le> n \<and> need s \<le> k) \<Longrightarrow> res_ok Q wf_node True s (parseUnary pe n k s)"
proof (induction k arbitrary: s)
  case 0
  then show ?case by (auto simp: need_def st_ok_def)
next
  case (Suc k)
  have "res_ok Q wf_node True s (parsePostfix pe n s)"
    by (rule res_ok_weaken [OF expr_parser.pe_ok [OF parsePostfix_ok]]) (use Suc.prems in auto)
  moreover have "res_ok Q wf_node True s
    (nested (\<lambda>s1. then_p (parseUnary pe n k) (\<lambda>child s2. (Inr (UnaryNode ''-'' child), s2)) (advance s1)) s)"
    by (rule prefix_ok [where k = "min k n"]) (use Suc in \<open>auto simp: unary_ops_def\<close>)
  ultimately show ?case by simp
qed

lemma parseUnary_ok: "expr_parser (parseUnary pe n n) n"
  by unfold_locales (rule parseUnary_step, auto)

lemma parseMul_ok: "expr_parser (parseMul pe n) n"
  unfolding parseMul_def
  by (rule expr_parser.level_ok [OF parseUnary_ok]) (auto simp: ops_ok_def tok_ok_def)

lemma parseAdd_ok: "expr_parser (parseAdd pe n) n"
  unfolding parseAdd_def
  by (rule expr_parser.level_ok [OF parseMul_ok]) (auto simp: ops_ok_def tok_ok_def)

lemma parseCmp_ok: "expr_parser (parseCmp pe n) n"
proof
  fix s
  assume s: "st_ok s"
  note add = expr_parser.pe_ok [OF parseAdd_ok] and add_from = expr_parser.pe_from [OF parseAdd_ok]
  show "res_ok (need s \<le> n) wf_node True s (parseCmp pe n s)"
    unfolding parseCmp_def
  proof (rule res_ok_then, rule add [OF s])
    fix left s1
    assume s1: "reach s s1" "wf_node left" "True \<Longrightarrow> moved s s1"
    then have a: "reach s (advance s1)" by blast
    have "is_cmp_op (ckind s1) \<Longrightarrow> cval s1 \<in> set binary_ops"
      using reach_st_ok [OF s1(1)] by (simp add: st_ok_def tok_ok_def)
    moreover have "res_ok (need s \<le> n) wf_node True s
        (then_p (parseAdd pe n) (\<lambda>right s2. (Inr (BinaryNode (cval s1) left right), s2)) (advance s1))"
      if "cval s1 \<in> set binary_ops"
      by (rule res_ok_then, rule add_from [OF a]) (use s1 that in auto)
    ultimately show "res_ok (need s \<le> n) wf_node True s
      (if is_cmp_op (ckind s1) then
         then_p (parseAdd pe n) (\<lambda>right s2. (Inr (BinaryNode (cval s1) left right), s2)) (advance s1)
       else (Inr left, s1))"
      using s1 by simp
  qed
qed

lemma parseNot_step:
  "st_ok s \<Longrightarrow> (Q \<Longrightarrow> need s \<le> n \<and> need s \<le> k) \<Longrightarrow> res_ok Q wf_node True s (parseNot pe n k s)"
proof (induction k arbitrary: s)
  case 0
  then show ?case by (auto simp: need_def st_ok_def)
next
  case (Suc k)
  have "res_ok Q wf_node True s (parseCmp pe n s)"
    by (rule res_ok_weaken [OF expr_parser.pe_ok [OF parseCmp_ok]]) (use Suc.prems in auto)
  moreover have "res_ok Q wf_node True s
    (nested (\<lambda>s1. then_p (parseNot pe n k) (\<lambda>child s2. (Inr (UnaryNode ''!'' child), s2)) (advance s1)) s)"
    by (rule prefix_ok [where k = "min k n"]) (use Suc in \<open>auto simp: unary_ops_def\<close>)
  ultimately show ?case by simp
qed

lemma parseNot_ok: "expr_parser (parseNot pe n n) n"
  by unfold_locales (rule parseNot_step, auto)

lemma parseAnd_ok: "expr_parser (parseAnd pe n) n"
  unfolding parseAnd_def
  by (rule expr_parser.level_ok [OF parseNot_ok]) (auto simp: ops_ok_def binary_ops_def)

lemma parseOr_ok: "expr_parser (parseOr pe n) n"
  unfolding parseOr_def
  by (rule expr_parser.level_ok [OF parseAnd_ok]) (auto simp: ops_ok_def binary_ops_def)

lemma nested_Or_ok: "expr_parser (nested (parseOr pe n)) (Suc n)"
proof
  fix s
  assume s: "st_ok s"
  show "res_ok (need s \<le> Suc n) wf_node True s (nested (parseOr pe n) s)"
    by (rule res_ok_nested [OF s], rule res_ok_weaken [OF expr_parser.pe_ok [OF parseOr_ok]]) auto
qed

end

section \<open>The parser keeps the contract\<close>

lemma parseExpr_contract: "expr_parser (parseExpr n) n"
proof (induction n)
  case 0
  show ?case by unfold_locales (auto simp: need_def st_ok_def)
next
  case (Suc n)
  have "parseExpr (Suc n) = nested (parseOr (parseExpr n) n)" by (rule ext) simp
  with expr_parser.nested_Or_ok [OF Suc] show ?case by simp
qed

interpretation px: expr_parser "parseExpr n" n for n
  by (rule parseExpr_contract)

section \<open>What \<open>ParseOn\<close> promises\<close>

definition start_state :: "string \<Rightarrow> read_budget \<Rightarrow> pstate" where
  "start_state src b = \<lparr>plex = newLexer src, pcur = \<lparr>tkind = TokEOF, tvalue = []\<rparr>, perr = None,
                pdepth = 0, pbudget = b, pbegan = bspent b\<rparr>"

lemma start_ok: "st_ok (start_state src b)"
  by (simp add: start_state_def st_ok_def tok_ok_plain)

lemma start_need: "need (start_state src b) \<le> parse_fuel src"
  by (simp add: start_state_def need_def mu_def parse_fuel_def newLexer_def)

lemma parseOn_run:
  assumes "parseOn src b = (R, b')"
  obtains r s where "res_ok True wf_node False (start_state src b) (r, s)" "b' = pbudget s"
    "R = (case perr s of Some e \<Rightarrow> Inl e
          | None \<Rightarrow> (case r of Inl e \<Rightarrow> Inl e
               | Inr nd \<Rightarrow> if ckind s \<noteq> TokEOF then Inl (PTrailing (cval s)) else Inr nd))"
proof -
  let ?s0 = "start_state src b"
  obtain r s where rs: "parseExpr (parse_fuel src) (advance ?s0) = (r, s)" by fastforce
  have a: "reach ?s0 (advance ?s0)" by (rule reach_advance [OF start_ok])
  have "res_ok True wf_node True ?s0 (r, s)"
    using px.pe_from [OF a, of True "parse_fuel src"] start_need rs by simp
  then have "res_ok True wf_node False ?s0 (r, s)"
    by (rule res_ok_weaken) auto
  moreover have "b' = pbudget s"
    "R = (case perr s of Some e \<Rightarrow> Inl e
          | None \<Rightarrow> (case r of Inl e \<Rightarrow> Inl e
               | Inr nd \<Rightarrow> if ckind s \<noteq> TokEOF then Inl (PTrailing (cval s)) else Inr nd))"
    using assms rs by (simp_all add: parseOn_def start_state_def)
  ultimately show ?thesis by (rule that)
qed

lemma parseOn_evolves: 
  assumes "parseOn src b = (R, b')"
  shows "\<exists>s. evolves (start_state src b) s \<and> b' = pbudget s"
  using assms
proof (rule parseOn_run)
  fix r s
  assume "res_ok True wf_node False (start_state src b) (r, s)" "b' = pbudget s"
  then show ?thesis by (cases r) (auto dest: reach_evolves)
qed

lemma parseOn_not_fuel: "fst (parseOn src b) \<noteq> Inl PFuel"
proof -
  obtain R b' where R: "parseOn src b = (R, b')" by fastforce
  then show ?thesis
  proof (rule parseOn_run)
    fix r s
    assume *: "res_ok True wf_node False (start_state src b) (r, s)"
      "R = (case perr s of Some e \<Rightarrow> Inl e
          | None \<Rightarrow> (case r of Inl e \<Rightarrow> Inl e
               | Inr nd \<Rightarrow> if ckind s \<noteq> TokEOF then Inl (PTrailing (cval s)) else Inr nd))"
    then have "perr s \<noteq> Some PFuel"
      by (cases r) (auto simp: evolves_def reach_def start_state_def)
    with * R show ?thesis by (cases r) (auto split: option.splits)
  qed
qed

lemma parseOn_wf:
  assumes "parseOn src b = (Inr nd, b')"
  shows "wf_node nd"
  using assms by (rule parseOn_run) (auto split: option.splits sum.splits if_splits)

lemma parseOn_budget:
  assumes "parseOn src b = (R, b')"
  shows "blimit b' = blimit b" "bspent b \<le> bspent b'" "bspent b \<le> blimit b \<Longrightarrow> bspent b' \<le> blimit b"
  using parseOn_evolves [OF assms] by (auto simp: evolves_def start_state_def)

end
