(* ===== verification/ExprValue.thy ===== *)
theory ExprValue
  imports ExprSyntax GoFormat "HOL-Library.Signed_Division"
begin

text \<open>
  The values an expression evaluates to and the coercions between them: the value part of
  \<open>pkg/dsl/expr/expr.go\<close> (\<open>truthy\<close>, \<open>equals\<close>, \<open>compare\<close>, \<open>arith\<close>, \<open>toInt\<close>, \<open>toFloat\<close>, the
  checked 64-bit operations, \<open>toElemSlice\<close>, \<open>toStringMap\<close>, \<open>descendPath\<close>).
\<close>

section \<open>Values\<close>

text \<open>
  A Go \<open>any\<close> the context callbacks can deliver. The integer kinds keep their kind; the value is
  in its kind's range. \<open>VTSlice\<close> and \<open>VTMap\<close> are the concrete slice and string-keyed map types the
  code reaches by reflection, with their Go type's name; \<open>VOther\<close> is any other value (no slice,
  array or map), with its type's name and its \<open>%v\<close> rendering.
\<close>

datatype ikind = KInt | KInt8 | KInt16 | KInt32 | KInt64 | KUint | KUint8 | KUint16 | KUint32 | KUint64

datatype gval =
    VNil
  | VBool bool
  | VInt ikind int
  | VF64 f64
  | VF32 f64
  | VString string
  | VList "gval list"
  | VMap "(string \<times> gval) list"
  | VTSlice string "gval list"
  | VTMap string "(string \<times> gval) list"
  | VOther string string

text \<open>An \<open>int64\<close> value from its 64-bit word.\<close>

definition v_int64 :: "int64 \<Rightarrow> gval" where
  "v_int64 w = VInt KInt64 (sint w)"

fun kind_name :: "ikind \<Rightarrow> string" where
  "kind_name KInt = ''int''"
| "kind_name KInt8 = ''int8''"
| "kind_name KInt16 = ''int16''"
| "kind_name KInt32 = ''int32''"
| "kind_name KInt64 = ''int64''"
| "kind_name KUint = ''uint''"
| "kind_name KUint8 = ''uint8''"
| "kind_name KUint16 = ''uint16''"
| "kind_name KUint32 = ''uint32''"
| "kind_name KUint64 = ''uint64''"

text \<open>\<open>%T\<close> in the evaluator's messages.\<close>

fun type_name :: "gval \<Rightarrow> string" where
  "type_name VNil = ''<nil>''"
| "type_name (VBool b) = ''bool''"
| "type_name (VInt k n) = kind_name k"
| "type_name (VF64 f) = ''float64''"
| "type_name (VF32 f) = ''float32''"
| "type_name (VString s) = ''string''"
| "type_name (VList vs) = ''[]interface {}''"
| "type_name (VMap m) = ''map[string]interface {}''"
| "type_name (VTSlice t vs) = t"
| "type_name (VTMap t m) = t"
| "type_name (VOther t r) = t"

text \<open>\<open>fmt.Sprintf("%v", v)\<close>. Map entries render in key order.\<close>

fun intersperse :: "string \<Rightarrow> string list \<Rightarrow> string" where
  "intersperse sep [] = []"
| "intersperse sep [x] = x"
| "intersperse sep (x # y # xs) = x @ sep @ intersperse sep (y # xs)"

fun fmtv :: "gval \<Rightarrow> string" where
  "fmtv VNil = ''<nil>''"
| "fmtv (VBool b) = (if b then ''true'' else ''false'')"
| "fmtv (VInt k n) = int_str n"
| "fmtv (VF64 f) = f_str F64 f"
| "fmtv (VF32 f) = f_str F32 f"
| "fmtv (VString s) = s"
| "fmtv (VList vs) = ''['' @ intersperse '' '' (map fmtv vs) @ '']''"
| "fmtv (VMap m) = ''map['' @ intersperse '' '' (map (\<lambda>(k, v). k @ '':'' @ fmtv v) m) @ '']''"
| "fmtv (VTSlice t vs) = ''['' @ intersperse '' '' (map fmtv vs) @ '']''"
| "fmtv (VTMap t m) = ''map['' @ intersperse '' '' (map (\<lambda>(k, v). k @ '':'' @ fmtv v) m) @ '']''"
| "fmtv (VOther t r) = r"

section \<open>Truth\<close>

text \<open>
  \<open>strings.TrimSpace\<close> on UTF-8 bytes: the encodings of the runes \<open>unicode.IsSpace\<close> accepts.
\<close>

definition bytes :: "nat list \<Rightarrow> string" where
  "bytes ns = map (char_of :: nat \<Rightarrow> char) ns"

definition space_seqs :: "string list" where
  "space_seqs =
     map bytes ([[9], [10], [11], [12], [13], [32], [194, 133], [194, 160], [225, 154, 128]] @
       map (\<lambda>b. [226, 128, b]) ([128..<139] @ [168, 169, 175]) @ [[226, 129, 159], [227, 128, 128]])"

definition strip_prefix :: "string \<Rightarrow> string \<Rightarrow> string option" where
  "strip_prefix p s = (if p \<noteq> [] \<and> take (length p) s = p then Some (drop (length p) s) else None)"

fun strip_first :: "string list \<Rightarrow> string \<Rightarrow> string option" where
  "strip_first [] s = None"
| "strip_first (p # ps) s = (case strip_prefix p s of Some r \<Rightarrow> Some r | None \<Rightarrow> strip_first ps s)"

lemma strip_prefix_append: "strip_prefix p s = Some r \<Longrightarrow> s = p @ r \<and> p \<noteq> []"
  by (auto simp: strip_prefix_def split: if_splits) (metis append_take_drop_id)

lemma strip_first_shorter: "strip_first ps s = Some r \<Longrightarrow> length r < length s"
  by (induction ps s rule: strip_first.induct)
    (auto dest: strip_prefix_append split: option.splits)

function strip_left :: "string list \<Rightarrow> string \<Rightarrow> string" where
  "strip_left ps s = (case strip_first ps s of None \<Rightarrow> s | Some r \<Rightarrow> strip_left ps r)"
  by auto
termination
  by (relation "measure (\<lambda>(ps, s). length s)") (auto dest: strip_first_shorter)

declare strip_left.simps [simp del]

definition trim_space :: "string \<Rightarrow> string" where
  "trim_space s = rev (strip_left (map rev space_seqs) (rev (strip_left space_seqs s)))"

text \<open>
  \<open>strings.ToLower\<close> on the ASCII letters. No other rune lowers to a letter of the words below,
  so comparing with them gives the same answer on every string.
\<close>

definition to_lower :: "string \<Rightarrow> string" where
  "to_lower = map (\<lambda>c. if CHR ''A'' \<le> c \<and> c \<le> CHR ''Z'' then char_of ((of_char c :: nat) + 32) else c)"

definition falsy_words :: "string list" where
  "falsy_words = ['''', ''false'', ''no'', ''0'']"

fun truthy :: "gval \<Rightarrow> bool" where
  "truthy VNil = False"
| "truthy (VBool b) = b"
| "truthy (VString s) = (to_lower (trim_space s) \<notin> set falsy_words)"
| "truthy (VInt k n) = (if k = KInt \<or> k = KInt64 then n \<noteq> 0 else True)"
| "truthy (VF64 f) = (\<not> f_eq f f_zero)"
| "truthy (VList vs) = (vs \<noteq> [])"
| "truthy (VMap m) = (m \<noteq> [])"
| "truthy _ = True"

section \<open>Numbers\<close>

fun toInt :: "gval \<Rightarrow> int64 option" where
  "toInt (VInt k n) =
     (if (k = KUint \<or> k = KUint64) \<and> 2 ^ 63 - 1 < n then None else Some (word_of_int n))"
| "toInt (VF32 f) = (let i = f_to_int64 f in if f_eq f (f32_of_int i) then Some (word_of_int i) else None)"
| "toInt (VF64 f) = (let i = f_to_int64 f in if f_eq f (f_of_int i) then Some (word_of_int i) else None)"
| "toInt _ = None"

fun toFloat :: "gval \<Rightarrow> f64 option" where
  "toFloat (VInt k n) = Some (f_of_int n)"
| "toFloat (VF32 f) = Some f"
| "toFloat (VF64 f) = Some f"
| "toFloat _ = None"

definition addCheckedInt64 :: "int64 \<Rightarrow> int64 \<Rightarrow> int64 option" where
  "addCheckedInt64 a b =
     (let r = a + b
      in if (0 <s b \<and> r <s a) \<or> (b <s 0 \<and> a <s r) then None else Some r)"

definition subCheckedInt64 :: "int64 \<Rightarrow> int64 \<Rightarrow> int64 option" where
  "subCheckedInt64 a b =
     (let r = a - b
      in if (0 <s b \<and> a <s r) \<or> (b <s 0 \<and> r <s a) then None else Some r)"

definition minInt64 :: int64 where
  "minInt64 = word_of_int (- (2 ^ 63))"

text \<open>Go's \<open>/\<close> and \<open>%\<close> on \<open>int64\<close>: truncated towards zero, and the quotient wraps.\<close>

definition quot64 :: "int64 \<Rightarrow> int64 \<Rightarrow> int64" where
  "quot64 a b = word_of_int (sint a sdiv sint b)"

definition rem64 :: "int64 \<Rightarrow> int64 \<Rightarrow> int64" where
  "rem64 a b = word_of_int (sint a smod sint b)"

definition mulCheckedInt64 :: "int64 \<Rightarrow> int64 \<Rightarrow> int64 option" where
  "mulCheckedInt64 a b =
     (if a = 0 \<or> b = 0 then Some 0
      else if (a = minInt64 \<and> b = - 1) \<or> (b = minInt64 \<and> a = - 1) then None
      else let r = a * b in if quot64 r b \<noteq> a then None else Some r)"

section \<open>Errors\<close>

text \<open>
  The evaluator's errors, with the type names and operands their messages quote. \<open>EPanic\<close> is Go's
  index-out-of-range panic on a syntax tree the parser does not build.
\<close>

datatype eval_error =
    EVisits
  | EWork
  | EInterrupted
  | EUnknownNode
  | EPanic
  | EUnknownNamespace string
  | ECannotNegate string
  | EUnknownUnary string
  | EUnknownBinary string
  | ECannotCompare string string string
  | ECannotConcat string string
  | EAddOverflow int64 int64
  | ESubOverflow int64 int64
  | EMulOverflow int64 int64
  | EDivByZero
  | EDivOverflow int64 int64
  | EModByZero
  | EFloatDivByZero
  | ECannotApply string string string
  | EUnknownFunction string
  | EArity arity_error
  | EArgs string nat            \<comment> \<open>a builtin's own argument count\<close>
  | EBadArg string nat string   \<comment> \<open>builtin, argument position, its type\<close>
  | ESumOverflow
  | ENotFinite string f64
  | EArrayIndex string
  | EMapKey string
  | ECannotIndex string
  | EComb string string
  | EUnknownComb string

section \<open>Comparison and arithmetic\<close>

fun as_string :: "gval \<Rightarrow> string option" where
  "as_string (VString s) = Some s"
| "as_string _ = None"

fun as_bool :: "gval \<Rightarrow> bool option" where
  "as_bool (VBool b) = Some b"
| "as_bool _ = None"

text \<open>\<open>equals\<close>: the numeric readings first, then strings and booleans of the same type.\<close>

definition equals :: "gval \<Rightarrow> gval \<Rightarrow> bool" where
  "equals a b =
     (case (toInt a, toInt b) of
        (Some i, Some j) \<Rightarrow> i = j
      | _ \<Rightarrow>
        (case (toFloat a, toFloat b) of
           (Some f, Some g) \<Rightarrow> f_eq f g
         | _ \<Rightarrow>
           if a = VNil \<or> b = VNil then a = VNil \<and> b = VNil
           else
             (case (as_string a, as_string b) of
                (Some s, Some t) \<Rightarrow> s = t
              | _ \<Rightarrow>
                (case (as_bool a, as_bool b) of
                   (Some p, Some q) \<Rightarrow> p = q
                 | _ \<Rightarrow> False))))"

definition f_cmp :: "string \<Rightarrow> f64 \<Rightarrow> f64 \<Rightarrow> bool option" where
  "f_cmp op a b =
     (if op = ''<'' then Some (f_lt a b)
      else if op = ''<='' then Some (f_le a b)
      else if op = ''>'' then Some (f_lt b a)
      else if op = ''>='' then Some (f_le b a)
      else None)"

definition s_cmp :: "string \<Rightarrow> string \<Rightarrow> string \<Rightarrow> bool option" where
  "s_cmp op a b =
     (if op = ''<'' then Some (a < b)
      else if op = ''<='' then Some (a \<le> b)
      else if op = ''>'' then Some (b < a)
      else if op = ''>='' then Some (b \<le> a)
      else None)"

definition compare_vals :: "string \<Rightarrow> gval \<Rightarrow> gval \<Rightarrow> (eval_error, bool) result" where
  "compare_vals op a b =
     (let num = (case (toFloat a, toFloat b) of (Some f, Some g) \<Rightarrow> f_cmp op f g | _ \<Rightarrow> None)
      in case num of
           Some r \<Rightarrow> Inr r
         | None \<Rightarrow>
             (let str = (case (as_string a, as_string b) of (Some s, Some t) \<Rightarrow> s_cmp op s t | _ \<Rightarrow> None)
              in case str of
                   Some r \<Rightarrow> Inr r
                 | None \<Rightarrow> Inl (ECannotCompare (type_name a) op (type_name b))))"

definition operandLen :: "gval \<Rightarrow> int option" where
  "operandLen v =
     (case as_string v of
        Some s \<Rightarrow> Some (int (length s))
      | None \<Rightarrow> if toFloat v \<noteq> None then Some 24 else None)"

text \<open>\<open>concatCharge\<close>: what a concatenating \<open>+\<close> is charged, when it concatenates.\<close>

definition concatCharge :: "gval \<Rightarrow> gval \<Rightarrow> int option" where
  "concatCharge a b =
     (if as_string a = None \<and> as_string b = None then None
      else (case (operandLen a, operandLen b) of (Some m, Some n) \<Rightarrow> Some (m + n) | _ \<Rightarrow> None))"

definition int_arith :: "string \<Rightarrow> int64 \<Rightarrow> int64 \<Rightarrow> (eval_error, gval) result option" where
  "int_arith op a b =
     (if op = ''+'' then
        Some (case addCheckedInt64 a b of Some r \<Rightarrow> Inr (v_int64 r) | None \<Rightarrow> Inl (EAddOverflow a b))
      else if op = ''-'' then
        Some (case subCheckedInt64 a b of Some r \<Rightarrow> Inr (v_int64 r) | None \<Rightarrow> Inl (ESubOverflow a b))
      else if op = ''*'' then
        Some (case mulCheckedInt64 a b of Some r \<Rightarrow> Inr (v_int64 r) | None \<Rightarrow> Inl (EMulOverflow a b))
      else if op = ''/'' then
        Some (if b = 0 then Inl EDivByZero
              else if a = minInt64 \<and> b = - 1 then Inl (EDivOverflow a b)
              else Inr (v_int64 (quot64 a b)))
      else if op = ''%'' then
        Some (if b = 0 then Inl EModByZero else Inr (v_int64 (rem64 a b)))
      else None)"

definition float_arith :: "string \<Rightarrow> f64 \<Rightarrow> f64 \<Rightarrow> (eval_error, gval) result option" where
  "float_arith op a b =
     (if op = ''+'' then Some (Inr (VF64 (f_add a b)))
      else if op = ''-'' then Some (Inr (VF64 (f_sub a b)))
      else if op = ''*'' then Some (Inr (VF64 (f_mul a b)))
      else if op = ''/'' then
        Some (if f_eq b f_zero then Inl EFloatDivByZero else Inr (VF64 (f_div a b)))
      else None)"

text \<open>The string branch of \<open>+\<close>; \<open>None\<close> when neither operand is a string.\<close>

definition concat_arith :: "gval \<Rightarrow> gval \<Rightarrow> (eval_error, gval) result option" where
  "concat_arith a b =
     (case (as_string a, as_string b) of
        (Some s, Some t) \<Rightarrow> Some (Inr (VString (s @ t)))
      | (Some s, None) \<Rightarrow>
          Some (if toFloat b \<noteq> None then Inr (VString (s @ fmtv b))
                else Inl (ECannotConcat (type_name a) (type_name b)))
      | (None, Some t) \<Rightarrow>
          Some (if toFloat a \<noteq> None then Inr (VString (fmtv a @ t))
                else Inl (ECannotConcat (type_name a) (type_name b)))
      | (None, None) \<Rightarrow> None)"

definition num_arith :: "string \<Rightarrow> gval \<Rightarrow> gval \<Rightarrow> (eval_error, gval) result" where
  "num_arith op a b =
     (let i = (case (toInt a, toInt b) of (Some m, Some n) \<Rightarrow> int_arith op m n | _ \<Rightarrow> None)
      in case i of
           Some r \<Rightarrow> r
         | None \<Rightarrow>
             (let f = (case (toFloat a, toFloat b) of (Some x, Some y) \<Rightarrow> float_arith op x y | _ \<Rightarrow> None)
              in case f of
                   Some r \<Rightarrow> r
                 | None \<Rightarrow> Inl (ECannotApply op (type_name a) (type_name b))))"

definition arith :: "string \<Rightarrow> gval \<Rightarrow> gval \<Rightarrow> (eval_error, gval) result" where
  "arith op a b =
     (case (if op = ''+'' then concat_arith a b else None) of
        Some r \<Rightarrow> r
      | None \<Rightarrow> num_arith op a b)"

section \<open>Collections\<close>

text \<open>\<open>toElemSlice\<close> and \<open>toStringMap\<close>; \<open>Inl\<close> carries the type name of their \<open>got %T\<close>.\<close>

fun toElemSlice :: "gval \<Rightarrow> (string, gval list) result" where
  "toElemSlice VNil = Inr []"
| "toElemSlice (VList vs) = Inr vs"
| "toElemSlice (VTSlice t vs) = Inr vs"
| "toElemSlice v = Inl (type_name v)"

fun toStringMap :: "gval \<Rightarrow> (string, (string \<times> gval) list) result" where
  "toStringMap VNil = Inr []"
| "toStringMap (VMap m) = Inr m"
| "toStringMap (VTMap t m) = Inr m"
| "toStringMap v = Inl (type_name v)"

text \<open>A map is its key-sorted list, so the sorted keys are the keys in list order.\<close>

definition sortedMapKeys :: "(string \<times> gval) list \<Rightarrow> string list" where
  "sortedMapKeys m = sort_stable (<) (map fst m)"

definition map_read :: "(string \<times> gval) list \<Rightarrow> string \<Rightarrow> gval" where
  "map_read m k = (case gmap_get m k of None \<Rightarrow> VNil | Some v \<Rightarrow> v)"

fun descendPath :: "gval \<Rightarrow> string list \<Rightarrow> gval" where
  "descendPath v [] = v"
| "descendPath (VMap m) (seg # path) = descendPath (map_read m seg) path"
| "descendPath v (seg # path) = VNil"

section \<open>Arithmetic on words is arithmetic on integers, or the error\<close>


lemma mod_window:
  fixes m y r k :: int
  shows "0 \<le> r \<Longrightarrow> r < m \<Longrightarrow> y = r + k * m \<Longrightarrow> y mod m = r"
  by simp

lemma sint_word_of_int_mod: "sint (word_of_int x :: int64) = (x + 2 ^ 63) mod 2 ^ 64 - 2 ^ 63"
  by (simp add: sint_sbintrunc' signed_take_bit_eq_take_bit_shift take_bit_eq_mod)

lemma sint_wrap:
  assumes "- (2 ^ 64) \<le> x" "x < 2 ^ 64"
  shows "sint (word_of_int x :: int64) =
    (if x < - (2 ^ 63) then x + 2 ^ 64 else if x < 2 ^ 63 then x else x - 2 ^ 64)"
proof -
  have "(x + 2 ^ 63) mod 2 ^ 64 =
      (if x < - (2 ^ 63) then x + 2 ^ 63 + 2 ^ 64 else if x < 2 ^ 63 then x + 2 ^ 63 else x + 2 ^ 63 - 2 ^ 64)"
    using assms mod_window [of "x + 2 ^ 63 + 2 ^ 64" "2 ^ 64" "x + 2 ^ 63" "- 1"]
      mod_window [of "x + 2 ^ 63" "2 ^ 64" "x + 2 ^ 63" 0]
      mod_window [of "x + 2 ^ 63 - 2 ^ 64" "2 ^ 64" "x + 2 ^ 63" 1]
    by auto
  then show ?thesis by (auto simp: sint_word_of_int_mod)
qed

lemma sint64_range: "- (2 ^ 63) \<le> sint (a :: int64)" "sint (a :: int64) < 2 ^ 63"
  using sint_ge [of a] sint_lt [of a] by simp_all

definition in_int64 :: "int \<Rightarrow> bool" where
  "in_int64 i \<longleftrightarrow> - (2 ^ 63) \<le> i \<and> i < 2 ^ 63"

lemma in_int64_sint [simp]: "in_int64 (sint (a :: int64))"
  using sint64_range [of a] by (simp add: in_int64_def)

lemma sint_word_of_int64 [simp]: "in_int64 i \<Longrightarrow> sint (word_of_int i :: int64) = i"
  using sint_wrap [of i] by (simp add: in_int64_def)

lemma int64_eq_iff: "(a :: int64) = b \<longleftrightarrow> sint a = sint b"
  by (auto intro: signed_word_eqI)

lemma sint_add_wrap: "sint ((a :: int64) + b) =
    (if sint a + sint b < - (2 ^ 63) then sint a + sint b + 2 ^ 64
     else if sint a + sint b < 2 ^ 63 then sint a + sint b else sint a + sint b - 2 ^ 64)"
  using sint_wrap [of "sint a + sint b"] sint64_range [of a] sint64_range [of b] by simp

lemma sint_sub_wrap: "sint ((a :: int64) - b) =
    (if sint a - sint b < - (2 ^ 63) then sint a - sint b + 2 ^ 64
     else if sint a - sint b < 2 ^ 63 then sint a - sint b else sint a - sint b - 2 ^ 64)"
  using sint_wrap [of "sint a - sint b"] sint64_range [of a] sint64_range [of b] by simp

lemma addCheckedInt64_exact:
  "addCheckedInt64 a b = (if in_int64 (sint a + sint b) then Some (word_of_int (sint a + sint b)) else None)"
  using sint64_range [of a] sint64_range [of b]
  by (auto simp: addCheckedInt64_def Let_def sint_add_wrap in_int64_def word_sless_alt)

lemma subCheckedInt64_exact:
  "subCheckedInt64 a b = (if in_int64 (sint a - sint b) then Some (word_of_int (sint a - sint b)) else None)"
  using sint64_range [of a] sint64_range [of b]
  by (auto simp: subCheckedInt64_def Let_def sint_sub_wrap in_int64_def word_sless_alt)

lemma sint_minInt64 [simp]: "sint minInt64 = - (2 ^ 63)"
  by (simp add: minInt64_def in_int64_def)

lemma quot_range:
  fixes x y :: int
  assumes "in_int64 x" "\<not> (x = - (2 ^ 63) \<and> y = - 1)"
  shows "in_int64 (x sdiv y)"
proof (cases "x = - (2 ^ 63)")
  case True
  have "x sdiv y \<noteq> - x" using assms(2) True int_sdiv_negated_is_minus1 [of x y] by auto
  with sdiv_int_range [of x y] True show ?thesis by (auto simp: in_int64_def)
next
  case False
  with sdiv_int_range [of x y] assms(1) show ?thesis by (auto simp: in_int64_def)
qed

lemma mult_sdiv_cancel: "y \<noteq> 0 \<Longrightarrow> (x * y) sdiv y = (x :: int)"
  by (simp add: signed_divide_int_eq_divide_int)

lemma sdiv_near:
  fixes r b :: int
  assumes "b \<noteq> 0"
  shows "\<bar>r - (r sdiv b) * b\<bar> < \<bar>b\<bar>"
  using smod_int_range [OF assms, of r] by (simp add: minus_sdiv_mult_eq_smod) linarith

lemma sint_mul_cong: "2 ^ 64 dvd (sint ((a :: int64) * b) - sint a * sint b)"
proof -
  have "sint (a * b) = (sint a * sint b + 2 ^ 63) mod 2 ^ 64 - 2 ^ 63"
    using sint_word_of_int_mod [of "sint a * sint b"] by simp
  moreover have "(2 :: int) ^ 64 dvd (x + 2 ^ 63) mod 2 ^ 64 - 2 ^ 63 - x" for x :: int
    by (metis (no_types, opaque_lifting) dvd_minus_mod dvd_diff_commute diff_diff_eq add.commute)
  ultimately show ?thesis by metis
qed

lemma mulCheckedInt64_exact:
  "mulCheckedInt64 a b = (if in_int64 (sint a * sint b) then Some (word_of_int (sint a * sint b)) else None)"
proof (cases "a = 0 \<or> b = 0")
  case True
  then show ?thesis by (auto simp: mulCheckedInt64_def in_int64_def)
next
  case nz: False
  then have b0: "sint b \<noteq> 0" "sint a \<noteq> 0" by (auto simp: int64_eq_iff)
  let ?P = "sint a * sint b" and ?r = "sint (a * b)"
  show ?thesis
  proof (cases "(a = minInt64 \<and> b = - 1) \<or> (b = minInt64 \<and> a = - 1)")
    case True
    then have "\<not> in_int64 ?P" by (auto simp: in_int64_def)
    with True nz show ?thesis by (auto simp: mulCheckedInt64_def)
  next
    case False
    have "quot64 (a * b) b = a \<longleftrightarrow> in_int64 ?P"
    proof
      assume "in_int64 ?P"
      then have "?r = ?P" using sint_word_of_int64 [of ?P] by simp
      with b0 show "quot64 (a * b) b = a" by (simp add: quot64_def mult_sdiv_cancel)
    next
      assume q: "quot64 (a * b) b = a"
      have "?r sdiv sint b = sint a"
      proof (cases "?r = - (2 ^ 63) \<and> sint b = - 1")
        case True
        with q have "a = minInt64" by (simp add: quot64_def minInt64_def)
        moreover have "b = - 1" using True by (simp add: int64_eq_iff)
        ultimately show ?thesis using False by simp
      next
        case False
        then have "in_int64 (?r sdiv sint b)" by (intro quot_range) auto
        with q show ?thesis by (metis quot64_def sint_word_of_int64)
      qed
      then have "\<bar>?r - ?P\<bar> < \<bar>sint b\<bar>" using sdiv_near [OF b0(1), of ?r] by simp
      moreover have "\<bar>sint b\<bar> < 2 ^ 64" using sint64_range [of b] by (simp add: abs_less_iff)
      ultimately have "\<bar>?r - ?P\<bar> < 2 ^ 64" by (rule order_less_trans)
      with sint_mul_cong [of a b] have "?r = ?P"
        by (metis dvd_imp_le_int abs_numeral eq_iff_diff_eq_0 linorder_not_less power_abs)
      then show "in_int64 ?P" by (metis in_int64_sint)
    qed
    with nz False show ?thesis by (auto simp: mulCheckedInt64_def Let_def)
  qed
qed

lemma equals_sym: "equals a b = equals b a"
  by (auto simp: equals_def f_eq_sym split: option.splits)

lemma arith_int:
  assumes "toInt a = Some m" "toInt b = Some n" "as_string a = None" "as_string b = None"
  shows "arith ''+'' a b = (if in_int64 (sint m + sint n) then Inr (VInt KInt64 (sint m + sint n))
           else Inl (EAddOverflow m n))"
    "arith ''-'' a b = (if in_int64 (sint m - sint n) then Inr (VInt KInt64 (sint m - sint n))
           else Inl (ESubOverflow m n))"
    "arith ''*'' a b = (if in_int64 (sint m * sint n) then Inr (VInt KInt64 (sint m * sint n))
           else Inl (EMulOverflow m n))"
  using assms
  by (simp_all add: arith_def concat_arith_def num_arith_def int_arith_def addCheckedInt64_exact
      subCheckedInt64_exact mulCheckedInt64_exact v_int64_def del: of_int_add of_int_diff of_int_mult)

lemma toInt_not_string [simp]: "toInt a = Some m \<Longrightarrow> as_string a = None"
  by (cases a) auto

lemma quot64_exact: "b \<noteq> 0 \<Longrightarrow> \<not> (a = minInt64 \<and> b = - 1) \<Longrightarrow> sint (quot64 a b) = sint a sdiv sint b"
proof -
  assume "b \<noteq> 0" "\<not> (a = minInt64 \<and> b = - 1)"
  then have "\<not> (sint a = - (2 ^ 63) \<and> sint b = - 1)" by (auto simp: int64_eq_iff)
  then show ?thesis unfolding quot64_def by (intro sint_word_of_int64 quot_range) auto
qed

lemma rem64_exact: "b \<noteq> 0 \<Longrightarrow> sint (rem64 a b) = sint a smod sint b"
proof -
  assume "b \<noteq> 0"
  then have "sint b \<noteq> 0" by (auto simp: int64_eq_iff)
  then have "in_int64 (sint a smod sint b)"
    using smod_int_range [of "sint b" "sint a"] sint64_range [of b] by (auto simp: in_int64_def)
  then show ?thesis by (simp add: rem64_def)
qed

lemma arith_div:
  assumes "toInt a = Some m" "toInt b = Some n" "n \<noteq> 0"
  shows "arith ''/'' a b = (if sint m sdiv sint n = 2 ^ 63 then Inl (EDivOverflow m n)
           else Inr (VInt KInt64 (sint m sdiv sint n)))"
    "arith ''%'' a b = Inr (VInt KInt64 (sint m smod sint n))"
proof -
  have "sint m sdiv sint n = 2 ^ 63 \<longleftrightarrow> m = minInt64 \<and> n = - 1"
  proof
    assume h: "sint m sdiv sint n = 2 ^ 63"
    have "\<not> in_int64 (sint m sdiv sint n)" unfolding h by (simp add: in_int64_def)
    then have "sint m = - (2 ^ 63) \<and> sint n = - 1" using quot_range [of "sint m" "sint n"] by auto
    then show "m = minInt64 \<and> n = - 1" by (simp add: int64_eq_iff)
  qed simp
  with assms show "arith ''/'' a b = (if sint m sdiv sint n = 2 ^ 63 then Inl (EDivOverflow m n)
           else Inr (VInt KInt64 (sint m sdiv sint n)))"
    by (auto simp: arith_def num_arith_def int_arith_def v_int64_def quot64_exact)
  from assms show "arith ''%'' a b = Inr (VInt KInt64 (sint m smod sint n))"
    by (simp add: arith_def num_arith_def int_arith_def v_int64_def rem64_exact)
qed

end
