(* ===== verification/ExprEval.thy ===== *)
theory ExprEval
  imports ExprParserOk ExprValue
begin

text \<open>
  The evaluator of \<open>pkg/dsl/expr/expr.go\<close>: \<open>evalState\<close>, its two budgets and its cancellation
  sample, one definition per node kind and per builtin, \<open>Eval\<close> and \<open>EvalBool\<close>, and the operator's
  overrides of the budgets (\<open>eval_budget.go\<close>, \<open>readbudget.go\<close>).
\<close>

section \<open>Budgets the operator sets\<close>

text \<open>\<open>strconv.Atoi\<close>: an optional sign and digits, in the range of a 64-bit \<open>int\<close>.\<close>

definition atoi :: "string \<Rightarrow> int option" where
  "atoi s =
     (let (neg, ds) = (case s of
            c # cs \<Rightarrow> if c = CHR ''-'' then (True, cs) else if c = CHR ''+'' then (False, cs) else (False, s)
          | [] \<Rightarrow> (False, []));
          n = (if neg then - int (digits_val ds) else int (digits_val ds))
      in if ds \<noteq> [] \<and> (\<forall>c \<in> set ds. is_digit c) \<and> in_int64 n then Some n else None)"

definition maxInt :: int where
  "maxInt = 2 ^ 63 - 1"

definition budget_from :: "int \<Rightarrow> string \<Rightarrow> int" where
  "budget_from dflt env =
     (let v = trim_space env
      in if v = [] then dflt
         else (case atoi v of
                 None \<Rightarrow> dflt
               | Some n \<Rightarrow> if n < 0 then dflt else if n = 0 then maxInt else n))"

definition defaultEvalBudget :: int where
  "defaultEvalBudget = 2 ^ 24"

text \<open>\<open>evalBudget\<close> and \<open>readbudget.Read\<close>, given the environment variable's value.\<close>

definition evalBudget :: "string \<Rightarrow> int" where
  "evalBudget env = budget_from defaultEvalBudget env"

definition readBudgetDefault :: int where
  "readBudgetDefault = 2 ^ 20"

definition readBudget :: "string \<Rightarrow> int" where
  "readBudget env = budget_from readBudgetDefault env"

section \<open>State\<close>

record eval_context =
  cVars :: "(string list \<Rightarrow> gval) option"
  cInput :: "(string list \<Rightarrow> gval) option"
  cOutputs :: "(string list \<Rightarrow> gval) option"
  cArtifacts :: "(string list \<Rightarrow> gval) option"
  cLoop :: "(string list \<Rightarrow> gval) option"
  cRun :: "(string list \<Rightarrow> gval) option"

type_synonym frame = "(string \<times> gval) list"

text \<open>
  What an evaluation never changes: the context (nil or not) and the cancellation, sampled by
  the work counter. The counter strictly falls, so a function of it is a function of time.
\<close>

record eval_env =
  eCtx :: "eval_context option"
  eInterrupted :: "int \<Rightarrow> bool"

text \<open>The local frames (innermost first), the visit budget and the work budget.\<close>

record evalState =
  frames :: "frame list"
  visits :: int
  work :: int

type_synonym 'a ev = "evalState \<Rightarrow> (eval_error, 'a) result \<times> evalState"

definition ev_return :: "'a \<Rightarrow> 'a ev" where
  "ev_return x st = (Inr x, st)"

definition ev_fail :: "eval_error \<Rightarrow> 'a ev" where
  "ev_fail e st = (Inl e, st)"

definition ev_bind :: "'a ev \<Rightarrow> ('a \<Rightarrow> 'b ev) \<Rightarrow> 'b ev" where
  "ev_bind m f st = (case m st of (Inl e, st1) \<Rightarrow> (Inl e, st1) | (Inr x, st1) \<Rightarrow> f x st1)"

definition ev_lift :: "(eval_error, 'a) result \<Rightarrow> 'a ev" where
  "ev_lift r st = (r, st)"

fun lookup_frames :: "frame list \<Rightarrow> string \<Rightarrow> gval option" where
  "lookup_frames [] name = None"
| "lookup_frames (f # fs) name =
     (case map_of f name of Some v \<Rightarrow> Some v | None \<Rightarrow> lookup_frames fs name)"

definition lookupLocal :: "string \<Rightarrow> evalState \<Rightarrow> gval option" where
  "lookupLocal name st = lookup_frames (frames st) name"

definition consume :: "unit ev" where
  "consume st =
     (let st1 = st\<lparr>visits := visits st - 1\<rparr>
      in if visits st1 < 0 then (Inl EVisits, st1) else (Inr (), st1))"

definition debit :: "int \<Rightarrow> unit ev" where
  "debit n st =
     (let st1 = st\<lparr>work := work st - n\<rparr>
      in if work st1 < 0 then (Inl EWork, st1) else (Inr (), st1))"

text \<open>A body under one more frame, popped whatever the body returns.\<close>

definition withFrame :: "frame \<Rightarrow> 'a ev \<Rightarrow> 'a ev" where
  "withFrame fr body st =
     (case body (st\<lparr>frames := fr # frames st\<rparr>) of (r, st1) \<Rightarrow> (r, st1\<lparr>frames := tl (frames st1)\<rparr>))"

definition evalBody :: "string \<Rightarrow> gval \<Rightarrow> gval ev \<Rightarrow> gval ev" where
  "evalBody name val body = withFrame [(name, val)] body"

text \<open>What \<open>evalNode\<close> does at every node: one unit of work, and every sixty-fourth the sample.\<close>

definition enterNode :: "eval_env \<Rightarrow> unit ev" where
  "enterNode env =
     ev_bind (debit 1) (\<lambda>_ st.
       if work st mod 64 = 0 \<and> eInterrupted env (work st) then (Inl EInterrupted, st) else (Inr (), st))"

section \<open>Paths, operators and subscripts\<close>

definition call_cb :: "(string list \<Rightarrow> gval) option \<Rightarrow> string list \<Rightarrow> gval" where
  "call_cb cb path = (case cb of None \<Rightarrow> VNil | Some f \<Rightarrow> f path)"

definition resolve_ctx :: "eval_context option \<Rightarrow> string \<Rightarrow> string list \<Rightarrow> (eval_error, gval) result" where
  "resolve_ctx ctx ns path =
     (case ctx of
        None \<Rightarrow> Inr VNil
      | Some c \<Rightarrow>
          if ns = ''vars'' then Inr (call_cb (cVars c) path)
          else if ns = ''input'' then Inr (call_cb (cInput c) path)
          else if ns = ''outputs'' then Inr (call_cb (cOutputs c) path)
          else if ns = ''artifacts'' then Inr (call_cb (cArtifacts c) path)
          else if ns = ''loop'' then Inr (call_cb (cLoop c) path)
          else if ns = ''run'' then Inr (call_cb (cRun c) path)
          else (case cInput c of
                  Some f \<Rightarrow> Inr (f (ns # path))
                | None \<Rightarrow> Inl (EUnknownNamespace ns)))"

definition resolvePath :: "eval_env \<Rightarrow> string \<Rightarrow> string list \<Rightarrow> gval ev" where
  "resolvePath env ns path st =
     (case lookupLocal ns st of
        Some v \<Rightarrow> (Inr (descendPath v path), st)
      | None \<Rightarrow> (resolve_ctx (eCtx env) ns path, st))"

fun negate_val :: "gval \<Rightarrow> (eval_error, gval) result" where
  "negate_val (VInt KInt64 n) = Inr (v_int64 (- word_of_int n))"
| "negate_val (VF64 f) = Inr (VF64 (f_neg f))"
| "negate_val v = Inl (ECannotNegate (type_name v))"

definition unary_val :: "string \<Rightarrow> gval \<Rightarrow> (eval_error, gval) result" where
  "unary_val op v =
     (if op = ''!'' then Inr (VBool (\<not> truthy v))
      else if op = ''-'' then negate_val v
      else Inl (EUnknownUnary op))"

text \<open>The strict operators of \<open>evalBinary\<close>, both operands evaluated.\<close>

definition binary_val :: "string \<Rightarrow> gval \<Rightarrow> gval \<Rightarrow> gval ev" where
  "binary_val op l r =
     (if op = ''=='' then ev_return (VBool (equals l r))
      else if op = ''!='' then ev_return (VBool (\<not> equals l r))
      else if op \<in> set compare_ops then ev_lift (map_sum id VBool (compare_vals op l r))
      else if op \<in> set arith_ops then
        ev_bind (case (if op = ''+'' then concatCharge l r else None) of
                   Some sz \<Rightarrow> debit sz
                 | None \<Rightarrow> ev_return ())
          (\<lambda>_. ev_lift (arith op l r))
      else ev_fail (EUnknownBinary op))"

definition elem_at :: "gval list \<Rightarrow> gval \<Rightarrow> (eval_error, gval) result" where
  "elem_at vs idx =
     (case toInt idx of
        None \<Rightarrow> Inl (EArrayIndex (type_name idx))
      | Some i \<Rightarrow> if sint i < 0 \<or> int (length vs) \<le> sint i then Inr VNil else Inr (vs ! nat (sint i)))"

definition entry_at :: "(string \<times> gval) list \<Rightarrow> gval \<Rightarrow> (eval_error, gval) result" where
  "entry_at m idx =
     (case as_string idx of
        None \<Rightarrow> Inl (EMapKey (type_name idx))
      | Some key \<Rightarrow> Inr (map_read m key))"

fun index_val :: "gval \<Rightarrow> gval \<Rightarrow> (eval_error, gval) result" where
  "index_val VNil idx = Inr VNil"
| "index_val (VList vs) idx = elem_at vs idx"
| "index_val (VMap m) idx = entry_at m idx"
| "index_val (VTSlice t vs) idx = elem_at vs idx"
| "index_val (VTMap t m) idx = entry_at m idx"
| "index_val v idx = Inl (ECannotIndex (type_name v))"

section \<open>Builtins\<close>

text \<open>A builtin's own argument count check, then its body on the arguments.\<close>

definition wrong_args :: "string \<Rightarrow> gval list \<Rightarrow> gval ev" where
  "wrong_args name args = ev_fail (EArgs name (length args))"

fun builtinLength :: "gval list \<Rightarrow> gval ev" where
  "builtinLength [v] =
     ev_lift (case v of
         VNil \<Rightarrow> Inr (VInt KInt64 0)
       | VList vs \<Rightarrow> Inr (VInt KInt64 (int (length vs)))
       | VString s \<Rightarrow> Inr (VInt KInt64 (int (length s)))
       | VTSlice t vs \<Rightarrow> Inr (VInt KInt64 (int (length vs)))
       | VMap m \<Rightarrow> Inr (VInt KInt64 (int (length m)))
       | VTMap t m \<Rightarrow> Inr (VInt KInt64 (int (length m)))
       | _ \<Rightarrow> Inl (EBadArg ''length'' 1 (type_name v)))"
| "builtinLength args = wrong_args ''length'' args"

fun concatLoop :: "nat \<Rightarrow> gval list \<Rightarrow> gval list \<Rightarrow> gval ev" where
  "concatLoop i out [] = ev_return (VList out)"
| "concatLoop i out (a # args) =
     (if a = VNil then concatLoop (Suc i) out args
      else (case toElemSlice a of
              Inl t \<Rightarrow> ev_fail (EBadArg ''concat'' (Suc i) t)
            | Inr arr \<Rightarrow> ev_bind (debit (int (length arr))) (\<lambda>_. concatLoop (Suc i) (out @ arr) args)))"

definition builtinConcat :: "gval list \<Rightarrow> gval ev" where
  "builtinConcat args = (if args = [] then wrong_args ''concat'' args else concatLoop 0 [] args)"

fun uniqueLoop :: "string list \<Rightarrow> gval list \<Rightarrow> gval list \<Rightarrow> gval ev" where
  "uniqueLoop seen out [] = ev_return (VList out)"
| "uniqueLoop seen out (v # vs) =
     ev_bind (debit (int (length (fmtv v)) + 1)) (\<lambda>_.
       if fmtv v \<in> set seen then uniqueLoop seen out vs
       else uniqueLoop (fmtv v # seen) (out @ [v]) vs)"

fun builtinUnique :: "gval list \<Rightarrow> gval ev" where
  "builtinUnique [v] =
     (case v of
        VNil \<Rightarrow> ev_return (VList [])
      | VList arr \<Rightarrow> uniqueLoop [] [] arr
      | _ \<Rightarrow> ev_fail (EBadArg ''unique'' 1 (type_name v)))"
| "builtinUnique args = wrong_args ''unique'' args"

fun builtinContains :: "gval list \<Rightarrow> gval ev" where
  "builtinContains [a, x] =
     (case a of
        VNil \<Rightarrow> ev_return (VBool False)
      | VList arr \<Rightarrow> ev_return (VBool (list_ex (\<lambda>v. fmtv v = fmtv x) arr))
      | _ \<Rightarrow> ev_fail (EBadArg ''contains'' 1 (type_name a)))"
| "builtinContains args = wrong_args ''contains'' args"

fun builtinTail :: "gval list \<Rightarrow> gval ev" where
  "builtinTail [a, x] =
     (case toInt x of
        None \<Rightarrow> ev_fail (EBadArg ''tail'' 2 (type_name x))
      | Some n \<Rightarrow>
          (case a of
             VNil \<Rightarrow> ev_return (VList [])
           | VList arr \<Rightarrow>
               if sint n \<le> 0 then ev_return (VList [])
               else if int (length arr) \<le> sint n then ev_return (VList arr)
               else ev_bind (debit (sint n))
                      (\<lambda>_. ev_return (VList (drop (length arr - nat (sint n)) arr)))
           | _ \<Rightarrow> ev_fail (EBadArg ''tail'' 1 (type_name a))))"
| "builtinTail args = wrong_args ''tail'' args"

fun builtinIf :: "gval list \<Rightarrow> gval ev" where
  "builtinIf [c, t, e] = ev_return (if truthy c then t else e)"
| "builtinIf args = wrong_args ''if'' args"

fun joinLoop :: "string \<Rightarrow> bool \<Rightarrow> string \<Rightarrow> gval list \<Rightarrow> gval ev" where
  "joinLoop sep first out [] = ev_return (VString out)"
| "joinLoop sep first out (v # vs) =
     ev_bind (debit (int (length (fmtv v) + length sep))) (\<lambda>_.
       joinLoop sep False (out @ (if first then [] else sep) @ fmtv v) vs)"

fun builtinJoin :: "gval list \<Rightarrow> gval ev" where
  "builtinJoin [a, x] =
     (case as_string x of
        None \<Rightarrow> ev_fail (EBadArg ''join'' 2 (type_name x))
      | Some sep \<Rightarrow>
          (case a of
             VNil \<Rightarrow> ev_return (VString [])
           | VList arr \<Rightarrow> joinLoop sep True [] arr
           | _ \<Rightarrow> ev_fail (EBadArg ''join'' 1 (type_name a))))"
| "builtinJoin args = wrong_args ''join'' args"

text \<open>
  The orders of \<open>sort\<close>: numbers by value, anything else by its rendering (a string renders as
  itself, so the all-string order is the last one). On an array holding a NaN the numeric one is no order, and what
  \<open>sort.SliceStable\<close> returns there is its own; the model's is the insertion sort's.
\<close>

definition num_of :: "gval \<Rightarrow> f64" where
  "num_of v = (case toFloat v of Some f \<Rightarrow> f | None \<Rightarrow> f_zero)"

definition sort_lt :: "gval list \<Rightarrow> gval \<Rightarrow> gval \<Rightarrow> bool" where
  "sort_lt vs =
     (if list_all (\<lambda>v. toFloat v \<noteq> None) vs then (\<lambda>a b. f_lt (num_of a) (num_of b))
      else (\<lambda>a b. fmtv a < fmtv b))"

fun builtinSort :: "gval list \<Rightarrow> gval ev" where
  "builtinSort [a] =
     (case toElemSlice a of
        Inl t \<Rightarrow> ev_fail (EBadArg ''sort'' 1 t)
      | Inr arr \<Rightarrow>
          ev_bind (debit (int (length arr)))
            (\<lambda>_. ev_return (VList (sort_stable (sort_lt arr) arr))))"
| "builtinSort args = wrong_args ''sort'' args"

fun builtinKeys :: "gval list \<Rightarrow> gval ev" where
  "builtinKeys [a] =
     (case toStringMap a of
        Inl t \<Rightarrow> ev_fail (EBadArg ''keys'' 1 t)
      | Inr m \<Rightarrow>
          ev_bind (debit (int (length m)))
            (\<lambda>_. ev_return (VList (map VString (sortedMapKeys m)))))"
| "builtinKeys args = wrong_args ''keys'' args"

fun builtinValues :: "gval list \<Rightarrow> gval ev" where
  "builtinValues [a] =
     (case toStringMap a of
        Inl t \<Rightarrow> ev_fail (EBadArg ''values'' 1 t)
      | Inr m \<Rightarrow>
          ev_bind (debit (int (length m)))
            (\<lambda>_. ev_return (VList (map (map_read m) (sortedMapKeys m)))))"
| "builtinValues args = wrong_args ''values'' args"

text \<open>The clamp of \<open>slice\<close>; no step of it leaves the 64-bit range.\<close>

definition clamp_index :: "int \<Rightarrow> int \<Rightarrow> int" where
  "clamp_index n i0 =
     (let i = (if i0 < 0 then i0 + n else i0)
      in if i < 0 then 0 else if n < i then n else i)"

fun builtinSlice :: "gval list \<Rightarrow> gval ev" where
  "builtinSlice [a, x, y] =
     (case toElemSlice a of
        Inl t \<Rightarrow> ev_fail (EBadArg ''slice'' 1 t)
      | Inr arr \<Rightarrow>
          (case toInt x of
             None \<Rightarrow> ev_fail (EBadArg ''slice'' 2 (type_name x))
           | Some start \<Rightarrow>
               (case toInt y of
                  None \<Rightarrow> ev_fail (EBadArg ''slice'' 3 (type_name y))
                | Some stop \<Rightarrow>
                    let n = int (length arr); s = clamp_index n (sint start);
                        e0 = clamp_index n (sint stop); e = (if e0 < s then s else e0)
                    in ev_bind (debit (e - s))
                         (\<lambda>_. ev_return (VList (take (nat (e - s)) (drop (nat s) arr)))))))"
| "builtinSlice args = wrong_args ''slice'' args"

fun sumFloat :: "f64 \<Rightarrow> gval list \<Rightarrow> (eval_error, gval) result" where
  "sumFloat fsum [] = Inr (VF64 fsum)"
| "sumFloat fsum (v # vs) =
     (case toFloat v of
        None \<Rightarrow> Inl (EBadArg ''sum'' 1 (type_name v))
      | Some fv \<Rightarrow> sumFloat (f_add fsum fv) vs)"

fun sumInt :: "int64 \<Rightarrow> gval list \<Rightarrow> (eval_error, gval) result" where
  "sumInt isum [] = Inr (v_int64 isum)"
| "sumInt isum (v # vs) =
     (case toInt v of
        Some iv \<Rightarrow>
          (case addCheckedInt64 isum iv of
             Some r \<Rightarrow> sumInt r vs
           | None \<Rightarrow> Inl ESumOverflow)
      | None \<Rightarrow> sumFloat (f_of_int (sint isum)) (v # vs))"

fun builtinSum :: "gval list \<Rightarrow> gval ev" where
  "builtinSum [a] =
     (case toElemSlice a of
        Inl t \<Rightarrow> ev_fail (EBadArg ''sum'' 1 t)
      | Inr arr \<Rightarrow> ev_lift (sumInt 0 arr))"
| "builtinSum args = wrong_args ''sum'' args"

text \<open>\<open>min\<close> and \<open>max\<close>: the elements of the array arguments and the scalars, in order.\<close>

fun minmax_elems :: "bool \<Rightarrow> gval list \<Rightarrow> (string, gval list) result" where
  "minmax_elems single [] = Inr []"
| "minmax_elems single (a # args) =
     (case toElemSlice a of
        Inl t \<Rightarrow> if single then Inl t else res_bind (minmax_elems single args) (\<lambda>vs. Inr (a # vs))
      | Inr elems \<Rightarrow> res_bind (minmax_elems single args) (\<lambda>vs. Inr (elems @ vs)))"

fun bestLoop :: "string \<Rightarrow> (gval \<times> f64) option \<Rightarrow> gval list \<Rightarrow> (eval_error, gval) result" where
  "bestLoop which best [] = Inr (case best of None \<Rightarrow> VNil | Some (v, f) \<Rightarrow> v)"
| "bestLoop which best (v # vs) =
     (case toFloat v of
        None \<Rightarrow> Inl (EBadArg which 1 (type_name v))
      | Some fv \<Rightarrow>
          (case best of
             None \<Rightarrow> bestLoop which (Some (v, fv)) vs
           | Some (b, bf) \<Rightarrow>
               if (which = ''min'' \<and> f_lt fv bf) \<or> (which = ''max'' \<and> f_lt bf fv)
               then bestLoop which (Some (v, fv)) vs else bestLoop which best vs))"

definition minMax :: "string \<Rightarrow> gval list \<Rightarrow> gval ev" where
  "minMax which args =
     (if args = [] then wrong_args which args
      else (case minmax_elems (length args = 1) args of
              Inl t \<Rightarrow> ev_fail (EBadArg which 1 t)
            | Inr vs \<Rightarrow> ev_lift (bestLoop which None vs)))"

definition numberToInt :: "string \<Rightarrow> (f64 \<Rightarrow> f64) \<Rightarrow> gval list \<Rightarrow> gval ev" where
  "numberToInt name fn args =
     (case args of
        [v] \<Rightarrow>
          (case toInt v of
             Some n \<Rightarrow> ev_return (v_int64 n)
           | None \<Rightarrow>
               (case toFloat v of
                  None \<Rightarrow> ev_fail (EBadArg name 1 (type_name v))
                | Some f \<Rightarrow>
                    let r = fn f in
                    if f_is_nan r \<or> f_is_inf r \<or> f_lt r (f_of_int (- (2 ^ 63))) \<or>
                       f_le (f_of_int (2 ^ 63 - 1)) r
                    then ev_fail (ENotFinite name f)
                    else ev_return (v_int64 (word_of_int (f_to_int64 r)))))
      | _ \<Rightarrow> wrong_args name args)"

fun flattenLoop :: "gval list \<Rightarrow> gval list \<Rightarrow> gval ev" where
  "flattenLoop out [] = ev_return (VList out)"
| "flattenLoop out (v # vs) =
     (case v of
        VList inner \<Rightarrow> ev_bind (debit (int (length inner))) (\<lambda>_. flattenLoop (out @ inner) vs)
      | _ \<Rightarrow> ev_bind (debit 1) (\<lambda>_. flattenLoop (out @ [v]) vs))"

fun builtinFlatten :: "gval list \<Rightarrow> gval ev" where
  "builtinFlatten [a] =
     (case toElemSlice a of
        Inl t \<Rightarrow> ev_fail (EBadArg ''flatten'' 1 t)
      | Inr arr \<Rightarrow> flattenLoop [] arr)"
| "builtinFlatten args = wrong_args ''flatten'' args"

fun run_builtin :: "builtin_fn \<Rightarrow> gval list \<Rightarrow> gval ev" where
  "run_builtin BLength = builtinLength"
| "run_builtin BConcat = builtinConcat"
| "run_builtin BUnique = builtinUnique"
| "run_builtin BContains = builtinContains"
| "run_builtin BJoin = builtinJoin"
| "run_builtin BTail = builtinTail"
| "run_builtin BIf = builtinIf"
| "run_builtin BSort = builtinSort"
| "run_builtin BKeys = builtinKeys"
| "run_builtin BValues = builtinValues"
| "run_builtin BSlice = builtinSlice"
| "run_builtin BSum = builtinSum"
| "run_builtin BMin = minMax ''min''"
| "run_builtin BMax = minMax ''max''"
| "run_builtin BFlatten = builtinFlatten"
| "run_builtin BFloor = numberToInt ''floor'' f_floor"
| "run_builtin BRound = numberToInt ''round'' f_round"

definition call_builtin :: "string \<Rightarrow> gval list \<Rightarrow> gval ev" where
  "call_builtin name args =
     (case lookup_builtin name of None \<Rightarrow> ev_fail (EUnknownFunction name) | Some b \<Rightarrow> run_builtin (bfn b) args)"

section \<open>Combinators\<close>

fun mapLoop :: "(gval \<Rightarrow> gval ev) \<Rightarrow> gval list \<Rightarrow> gval list \<Rightarrow> gval ev" where
  "mapLoop f out [] = ev_return (VList out)"
| "mapLoop f out (el # els) =
     ev_bind consume (\<lambda>_. ev_bind (f el) (\<lambda>v. mapLoop f (out @ [v]) els))"

fun filterLoop :: "(gval \<Rightarrow> gval ev) \<Rightarrow> gval list \<Rightarrow> gval list \<Rightarrow> gval ev" where
  "filterLoop f out [] = ev_return (VList out)"
| "filterLoop f out (el # els) =
     ev_bind consume (\<lambda>_. ev_bind (f el) (\<lambda>v. filterLoop f (if truthy v then out @ [el] else out) els))"

fun reduceLoop :: "(gval \<Rightarrow> gval \<Rightarrow> gval ev) \<Rightarrow> gval \<Rightarrow> gval list \<Rightarrow> gval ev" where
  "reduceLoop f acc [] = ev_return acc"
| "reduceLoop f acc (el # els) =
     ev_bind consume (\<lambda>_. ev_bind (f acc el) (\<lambda>acc'. reduceLoop f acc' els))"

text \<open>The body of a one-parameter lambda, and of \<open>reduce\<close>'s; a missing parameter panics.\<close>

definition body1 :: "string list \<Rightarrow> gval ev \<Rightarrow> gval \<Rightarrow> gval ev" where
  "body1 params body el = (case params of [] \<Rightarrow> ev_fail EPanic | p # _ \<Rightarrow> evalBody p el body)"

definition body2 :: "string list \<Rightarrow> gval ev \<Rightarrow> gval \<Rightarrow> gval \<Rightarrow> gval ev" where
  "body2 params body acc el =
     (case params of
        p # q # _ \<Rightarrow> withFrame [(q, el), (p, acc)] body
      | _ \<Rightarrow> ev_fail EPanic)"

definition combinator :: "string \<Rightarrow> string list \<Rightarrow> gval ev \<Rightarrow> gval ev \<Rightarrow> gval \<Rightarrow> gval ev" where
  "combinator name params init body coll =
     (case toElemSlice coll of
        Inl t \<Rightarrow> ev_fail (EComb name t)
      | Inr arr \<Rightarrow>
          if name = ''map'' then mapLoop (body1 params body) [] arr
          else if name = ''filter'' then filterLoop (body1 params body) [] arr
          else if name = ''reduce'' then ev_bind init (\<lambda>acc. reduceLoop (body2 params body) acc arr)
          else ev_fail (EUnknownComb name))"

section \<open>Nodes\<close>

fun evalArgs :: "gval ev list \<Rightarrow> gval list ev" where
  "evalArgs [] = ev_return []"
| "evalArgs (m # ms) = ev_bind m (\<lambda>v. ev_bind (evalArgs ms) (\<lambda>vs. ev_return (v # vs)))"

fun evalPairs :: "(string \<times> gval) list \<Rightarrow> string list \<Rightarrow> gval ev list \<Rightarrow> gval ev" where
  "evalPairs out [] ms = ev_return (VMap out)"
| "evalPairs out (k # ks) [] = ev_fail EPanic"
| "evalPairs out (k # ks) (m # ms) = ev_bind m (\<lambda>v. evalPairs (gmap_put k v out) ks ms)"

text \<open>The logical operators evaluate their right side only when the left does not decide.\<close>

definition and_then :: "gval ev \<Rightarrow> gval ev \<Rightarrow> gval ev" where
  "and_then l r =
     ev_bind l (\<lambda>a. if \<not> truthy a then ev_return (VBool False)
                    else ev_bind r (\<lambda>b. ev_return (VBool (truthy b))))"

definition or_else :: "gval ev \<Rightarrow> gval ev \<Rightarrow> gval ev" where
  "or_else l r =
     ev_bind l (\<lambda>a. if truthy a then ev_return (VBool True)
                    else ev_bind r (\<lambda>b. ev_return (VBool (truthy b))))"

definition evalBinary :: "string \<Rightarrow> gval ev \<Rightarrow> gval ev \<Rightarrow> gval ev" where
  "evalBinary op l r =
     (if op = ''&&'' then and_then l r
      else if op = ''||'' then or_else l r
      else ev_bind l (\<lambda>a. ev_bind r (\<lambda>b. binary_val op a b)))"

definition evalFuncCall :: "string \<Rightarrow> gval ev list \<Rightarrow> gval ev" where
  "evalFuncCall name args =
     (case (name = ''if'', args) of
        (True, [c, t, e]) \<Rightarrow> ev_bind c (\<lambda>v. if truthy v then t else e)
      | _ \<Rightarrow>
        if lookup_builtin name = None then ev_fail (EUnknownFunction name)
        else (case checkArity name (length args) of
                Some e \<Rightarrow> ev_fail (EArity e)
              | None \<Rightarrow> ev_bind (evalArgs args) (call_builtin name)))"

fun evalNode :: "eval_env \<Rightarrow> node \<Rightarrow> gval ev" where
  "evalNode env (LitBool b) = ev_bind (enterNode env) (\<lambda>_. ev_return (VBool b))"
| "evalNode env (LitInt i) = ev_bind (enterNode env) (\<lambda>_. ev_return (v_int64 i))"
| "evalNode env (LitFloat f) = ev_bind (enterNode env) (\<lambda>_. ev_return (VF64 f))"
| "evalNode env (LitString s) = ev_bind (enterNode env) (\<lambda>_. ev_return (VString s))"
| "evalNode env (PathNode ns path) = ev_bind (enterNode env) (\<lambda>_. resolvePath env ns path)"
| "evalNode env (UnaryNode op c) =
     ev_bind (enterNode env) (\<lambda>_. ev_bind (evalNode env c) (\<lambda>v. ev_lift (unary_val op v)))"
| "evalNode env (BinaryNode op l r) =
     ev_bind (enterNode env) (\<lambda>_. evalBinary op (evalNode env l) (evalNode env r))"
| "evalNode env (FuncCallNode name args) =
     ev_bind (enterNode env) (\<lambda>_. evalFuncCall name (map (evalNode env) args))"
| "evalNode env (IndexNode recv idx) =
     ev_bind (enterNode env) (\<lambda>_. ev_bind (evalNode env recv)
       (\<lambda>r. ev_bind (evalNode env idx) (\<lambda>i. ev_lift (index_val r i))))"
| "evalNode env (ListLit elems) =
     ev_bind (enterNode env) (\<lambda>_. ev_bind (evalArgs (map (evalNode env) elems)) (\<lambda>vs. ev_return (VList vs)))"
| "evalNode env (ObjectLit keys vals) =
     ev_bind (enterNode env) (\<lambda>_. evalPairs [] keys (map (evalNode env) vals))"
| "evalNode env (LambdaCombNode name coll init params body) =
     ev_bind (enterNode env) (\<lambda>_. ev_bind (evalNode env coll)
       (combinator name params
         (case init of None \<Rightarrow> ev_bind (enterNode env) (\<lambda>_. ev_fail EUnknownNode) | Some i \<Rightarrow> evalNode env i)
         (evalNode env body)))"

definition maxEvalVisits :: int where
  "maxEvalVisits = 100000"

text \<open>
  \<open>EvalContext\<close> on a work budget: the cancellation before the first node, then the tree on a
  fresh state.
\<close>

definition start_eval :: "int \<Rightarrow> evalState" where
  "start_eval budget = \<lparr>frames = [], visits = maxEvalVisits, work = budget\<rparr>"

definition eval_ast :: "eval_env \<Rightarrow> int \<Rightarrow> node option \<Rightarrow> (eval_error, gval) result" where
  "eval_ast env budget ast =
     (case ast of
        None \<Rightarrow> Inr VNil
      | Some nd \<Rightarrow>
          if eInterrupted env budget then Inl EInterrupted
          else fst (evalNode env nd (start_eval budget)))"

definition eval_bool :: "eval_env \<Rightarrow> int \<Rightarrow> node option \<Rightarrow> (eval_error, bool) result" where
  "eval_bool env budget ast = map_sum id truthy (eval_ast env budget ast)"

end
