(* ===== verification/ExprEvalOk.thy ===== *)
theory ExprEvalOk
  imports ExprEval
begin

text \<open>
  What every evaluation keeps. The contract of an evaluation step is a locale over a relation
  for a step that returns and one for a step that fails; every builtin, combinator and node is
  proved once under it, for the trees the parser builds. Its instances: the local frames come
  back as they were, the two budgets only fall and end non-negative on success, and no
  evaluation of a well-formed tree meets the errors the parser rules out.
\<close>

section \<open>Errors the parser rules out\<close>

fun is_fault :: "eval_error \<Rightarrow> bool" where
  "is_fault EPanic = True"
| "is_fault EUnknownNode = True"
| "is_fault (EUnknownUnary op) = True"
| "is_fault (EUnknownBinary op) = True"
| "is_fault (EUnknownFunction f) = True"
| "is_fault (EArity e) = True"
| "is_fault (EArgs f n) = True"
| "is_fault (EUnknownComb f) = True"
| "is_fault _ = False"

definition lift_ok :: "(eval_error, 'a) result \<Rightarrow> bool" where
  "lift_ok r \<longleftrightarrow> (\<forall>e. r = Inl e \<longrightarrow> \<not> is_fault e)"

lemma lift_ok_simps [simp]: "lift_ok (Inr x)" "lift_ok (Inl e) \<longleftrightarrow> \<not> is_fault e"
  by (simp_all add: lift_ok_def)

lemma lift_ok_map_sum [simp]: "lift_ok (map_sum id f r) = lift_ok r"
  by (cases r) auto

lemma lift_ok_resolve: "lift_ok (resolve_ctx ctx ns path)"
  by (auto simp: resolve_ctx_def split: option.splits)

lemma lift_ok_negate: "lift_ok (negate_val v)"
  by (cases v rule: negate_val.cases) auto

lemma lift_ok_unary: "op \<in> set unary_ops \<Longrightarrow> lift_ok (unary_val op v)"
  by (auto simp: unary_val_def unary_ops_def lift_ok_negate)

lemma lift_ok_compare: "lift_ok (compare_vals op a b)"
  by (auto simp: compare_vals_def Let_def split: option.splits)

lemma lift_ok_int_arith: "int_arith op m n = Some r \<Longrightarrow> lift_ok r"
  by (auto simp: int_arith_def split: if_splits option.splits)

lemma lift_ok_float_arith: "float_arith op x y = Some r \<Longrightarrow> lift_ok r"
  by (auto simp: float_arith_def split: if_splits)

lemma lift_ok_arith: "lift_ok (arith op a b)"
proof -
  have "concat_arith a b = Some r \<Longrightarrow> lift_ok r" for r
    by (auto simp: concat_arith_def split: option.splits if_splits)
  moreover have "lift_ok (num_arith op a b)"
    by (auto simp: num_arith_def Let_def split: option.splits
        dest: lift_ok_int_arith lift_ok_float_arith)
  ultimately show ?thesis by (auto simp: arith_def split: option.splits if_splits)
qed

lemma lift_ok_index: "lift_ok (index_val v i)"
  by (cases v) (auto simp: elem_at_def entry_at_def split: option.splits)

lemma lift_ok_sumFloat: "lift_ok (sumFloat f vs)"
  by (induction f vs rule: sumFloat.induct) (auto split: option.splits)

lemma lift_ok_sumInt: "lift_ok (sumInt i vs)"
  by (induction i vs rule: sumInt.induct) (auto split: option.splits simp: lift_ok_sumFloat simp del: sumFloat.simps)

lemma lift_ok_bestLoop: "lift_ok (bestLoop w b vs)"
  by (induction w b vs rule: bestLoop.induct) (auto split: option.splits)

lemmas lift_ok_rules = lift_ok_resolve lift_ok_negate lift_ok_unary lift_ok_compare lift_ok_arith
  lift_ok_index lift_ok_sumInt lift_ok_bestLoop

lemma call_ok_if: "call_ok ''if'' n \<longleftrightarrow> n = 3"
  by (auto simp: call_ok_def checkArity_def lookup_builtin_def builtins_def)

lemma evalArgs_length: "evalArgs ms st = (Inr vs, st1) \<Longrightarrow> length vs = length ms"
  by (induction ms arbitrary: st vs st1)
    (auto simp: ev_return_def ev_bind_def split: prod.splits sum.splits)

section \<open>The contract\<close>

fun out_ok :: "(evalState \<Rightarrow> evalState \<Rightarrow> bool) \<Rightarrow> (eval_error \<Rightarrow> evalState \<Rightarrow> evalState \<Rightarrow> bool) \<Rightarrow>
    evalState \<Rightarrow> (eval_error, 'a) result \<times> evalState \<Rightarrow> bool" where
  "out_ok S F st (Inr x, st') = S st st'"
| "out_ok S F st (Inl e, st') = F e st st'"

definition keeps :: "(evalState \<Rightarrow> evalState \<Rightarrow> bool) \<Rightarrow> (eval_error \<Rightarrow> evalState \<Rightarrow> evalState \<Rightarrow> bool) \<Rightarrow>
    'a ev \<Rightarrow> bool" where
  "keeps S F m \<longleftrightarrow> (\<forall>st. out_ok S F st (m st))"

locale eval_contract =
  fixes S :: "evalState \<Rightarrow> evalState \<Rightarrow> bool"
    and F :: "eval_error \<Rightarrow> evalState \<Rightarrow> evalState \<Rightarrow> bool"
  assumes S_refl: "S st st"
    and S_S: "S a b \<Longrightarrow> S b c \<Longrightarrow> S a c"
    and S_F: "S a b \<Longrightarrow> F e b c \<Longrightarrow> F e a c"
    and F_refl: "\<not> is_fault e \<Longrightarrow> F e st st"
    and debit_S: "0 \<le> n \<Longrightarrow> n \<le> work st \<Longrightarrow> S st (st\<lparr>work := work st - n\<rparr>)"
    and debit_F: "0 \<le> n \<Longrightarrow> work st < n \<Longrightarrow> F EWork st (st\<lparr>work := work st - n\<rparr>)"
    and consume_S: "0 < visits st \<Longrightarrow> S st (st\<lparr>visits := visits st - 1\<rparr>)"
    and consume_F: "visits st \<le> 0 \<Longrightarrow> F EVisits st (st\<lparr>visits := visits st - 1\<rparr>)"
    and frame_S: "S (st\<lparr>frames := fr # frames st\<rparr>) st1 \<Longrightarrow> S st (st1\<lparr>frames := tl (frames st1)\<rparr>)"
    and frame_F: "F e (st\<lparr>frames := fr # frames st\<rparr>) st1 \<Longrightarrow> F e st (st1\<lparr>frames := tl (frames st1)\<rparr>)"
begin

abbreviation ok :: "'a ev \<Rightarrow> bool" where
  "ok m \<equiv> keeps S F m"

lemma ok_return: "ok (ev_return x)"
  by (simp add: keeps_def ev_return_def S_refl)

lemma ok_fail: "\<not> is_fault e \<Longrightarrow> ok (ev_fail e)"
  by (simp add: keeps_def ev_fail_def F_refl)

lemma ok_lift: "lift_ok r \<Longrightarrow> ok (ev_lift r)"
  by (cases r) (simp_all add: keeps_def ev_lift_def S_refl F_refl)

lemma ok_bind_result:
  assumes m: "ok m" and f: "\<And>s0 x s1. m s0 = (Inr x, s1) \<Longrightarrow> ok (f x)"
  shows "ok (ev_bind m f)"
  unfolding keeps_def
proof
  fix st
  obtain r st1 where r: "m st = (r, st1)" by fastforce
  have "out_ok S F st (r, st1)" using m r by (metis keeps_def)
  then show "out_ok S F st (ev_bind m f st)"
  proof (cases r)
    case (Inr x)
    obtain r2 st2 where r2: "f x st1 = (r2, st2)" by fastforce
    have "out_ok S F st1 (r2, st2)" using f [of st x st1] r Inr r2 by (metis keeps_def)
    with \<open>out_ok S F st (r, st1)\<close> Inr show ?thesis
      by (cases r2) (auto simp: ev_bind_def r r2 intro: S_S S_F)
  qed (auto simp: ev_bind_def r)
qed

lemma ok_bind: "ok m \<Longrightarrow> (\<And>x. ok (f x)) \<Longrightarrow> ok (ev_bind m f)"
  by (rule ok_bind_result)

lemma ok_if: "(b \<Longrightarrow> ok x) \<Longrightarrow> (\<not> b \<Longrightarrow> ok y) \<Longrightarrow> ok (if b then x else y)"
  by simp

lemma ok_debit: "0 \<le> n \<Longrightarrow> ok (debit n)"
  by (auto simp: keeps_def debit_def Let_def debit_S debit_F)

lemma ok_consume: "ok consume"
  by (auto simp: keeps_def consume_def Let_def consume_S consume_F)

lemma ok_withFrame:
  assumes "ok m"
  shows "ok (withFrame fr m)"
  unfolding keeps_def
proof
  fix st :: evalState
  let ?st = "st\<lparr>frames := fr # frames st\<rparr>"
  obtain r st1 where r: "m ?st = (r, st1)" by fastforce
  have "out_ok S F ?st (r, st1)" using assms r by (metis keeps_def)
  then show "out_ok S F st (withFrame fr m st)"
    by (cases r) (auto simp: withFrame_def r intro: frame_S frame_F)
qed

lemmas ok_rules = ok_if ok_return ok_fail ok_lift ok_bind ok_debit ok_consume ok_withFrame

lemma ok_enterNode: "ok (enterNode env)"
  unfolding enterNode_def
  by (rule ok_bind, rule ok_debit) (auto simp: keeps_def S_refl F_refl)

lemma ok_resolvePath: "ok (resolvePath env ns path)"
  unfolding keeps_def
proof
  fix st
  have "ok (ev_lift (resolve_ctx (eCtx env) ns path))" by (rule ok_lift [OF lift_ok_resolve])
  then show "out_ok S F st (resolvePath env ns path st)"
    by (auto simp: resolvePath_def keeps_def ev_lift_def S_refl split: option.splits)
qed

lemma concatCharge_nonneg: "concatCharge a b = Some n \<Longrightarrow> 0 \<le> n"
  by (auto simp: concatCharge_def operandLen_def split: option.splits if_splits)

lemma ok_binary_val: "op \<in> set binary_ops \<Longrightarrow> op \<noteq> ''&&'' \<Longrightarrow> op \<noteq> ''||'' \<Longrightarrow> ok (binary_val op l r)"
  by (auto simp: binary_val_def binary_ops_def intro!: ok_rules lift_ok_rules concatCharge_nonneg
      split: option.splits)

section \<open>Builtins\<close>

lemma ok_concatLoop: "ok (concatLoop i out args)"
  by (induction i out args rule: concatLoop.induct) (auto intro!: ok_rules split: sum.splits)

lemma ok_uniqueLoop: "ok (uniqueLoop seen out vs)"
  by (induction seen out vs rule: uniqueLoop.induct) (auto intro!: ok_rules)

lemma ok_joinLoop: "ok (joinLoop sep first out vs)"
  by (induction sep first out vs rule: joinLoop.induct) (auto intro!: ok_rules)

lemma ok_flattenLoop: "ok (flattenLoop out vs)"
  by (induction out vs rule: flattenLoop.induct) (auto intro!: ok_rules split: gval.splits)

lemmas ok_loops = ok_concatLoop ok_uniqueLoop ok_joinLoop ok_flattenLoop

lemma ok_builtins:
  "ok (builtinLength [v])" "args \<noteq> [] \<Longrightarrow> ok (builtinConcat args)" "ok (builtinUnique [v])"
  "ok (builtinContains [v, w])" "ok (builtinTail [v, w])" "ok (builtinIf [v, w, x])"
  "ok (builtinJoin [v, w])" "ok (builtinSort [v])" "ok (builtinKeys [v])" "ok (builtinValues [v])"
  "ok (builtinSum [v])" "ok (builtinFlatten [v])" "ok (numberToInt f fn [v])"
  "args \<noteq> [] \<Longrightarrow> ok (minMax w' args)"
  by (auto simp: builtinConcat_def minMax_def numberToInt_def Let_def lift_ok_rules intro!: ok_rules ok_loops
      split: gval.splits option.splits sum.splits)

lemma ok_slice: "ok (builtinSlice [v, w, x])"
  by (auto simp: Let_def intro!: ok_rules split: option.splits sum.splits)

lemma ok_run_builtin:
  assumes "b \<in> set (map snd builtins)" "bmin b \<le> length args" "\<And>m. bmax b = Some m \<Longrightarrow> length args \<le> m"
  shows "ok (run_builtin (bfn b) args)"
proof -
  have one: "length args = 1 \<Longrightarrow> \<exists>x. args = [x]" and two: "length args = 2 \<Longrightarrow> \<exists>x y. args = [x, y]"
    and three: "length args = 3 \<Longrightarrow> \<exists>x y z. args = [x, y, z]"
    by (auto simp: length_Suc_conv numeral_2_eq_2 numeral_3_eq_3)
  have "args \<noteq> []" using assms by (auto simp: builtins_def)
  moreover have "bmax b = Some (bmin b) \<Longrightarrow> length args = bmin b"
    using assms(2) assms(3) [of "bmin b"] by simp
  ultimately show ?thesis
    using assms(1) one two three
    by (simp add: builtins_def, elim disjE) (auto intro: ok_builtins ok_slice simp del: builtinSlice.simps
      builtinLength.simps builtinUnique.simps builtinContains.simps builtinTail.simps builtinIf.simps
      builtinJoin.simps builtinSort.simps builtinKeys.simps builtinValues.simps builtinSum.simps
      builtinFlatten.simps)
qed

lemma ok_call_builtin:
  assumes "call_ok f (length args)"
  shows "ok (call_builtin f args)"
proof -
  obtain b where b: "lookup_builtin f = Some b" "checkArity f (length args) = None"
    using assms by (auto simp: call_ok_def)
  have "b \<in> set (map snd builtins)"
    using b(1) by (force simp: lookup_builtin_def dest: map_of_SomeD)
  then have "ok (run_builtin (bfn b) args)"
    using lookup_builtin_arity [OF b(1), of "length args"] b(2)
    by (intro ok_run_builtin) (auto split: option.splits)
  then show ?thesis by (simp add: call_builtin_def b(1))
qed

section \<open>Combinators and nodes\<close>

lemma ok_mapLoop: "(\<And>v. ok (g v)) \<Longrightarrow> ok (mapLoop g out els)"
  by (induction els arbitrary: out) (auto intro!: ok_rules)

lemma ok_filterLoop: "(\<And>v. ok (g v)) \<Longrightarrow> ok (filterLoop g out els)"
  by (induction els arbitrary: out) (auto intro!: ok_rules)

lemma ok_reduceLoop: "(\<And>a v. ok (g a v)) \<Longrightarrow> ok (reduceLoop g acc els)"
  by (induction els arbitrary: acc) (auto intro!: ok_rules)

lemma ok_combinator:
  assumes "isLambdaComb f" "length params = (if f = ''reduce'' then 2 else 1)" "ok body"
    and "f = ''reduce'' \<Longrightarrow> ok init"
  shows "ok (combinator f params init body coll)"
proof (cases "f = ''reduce''")
  case True
  with assms obtain p q where "params = [p, q]" by (auto simp: length_Suc_conv numeral_2_eq_2)
  with True assms show ?thesis
    by (auto simp: combinator_def body2_def intro!: ok_rules ok_reduceLoop split: sum.splits)
next
  case False
  with assms obtain p where "params = [p]" by (auto simp: length_Suc_conv)
  with False assms show ?thesis
    by (auto simp: combinator_def isLambdaComb_def body1_def evalBody_def
        intro!: ok_rules ok_mapLoop ok_filterLoop split: sum.splits)
qed

lemma ok_evalArgs: "(\<And>m. m \<in> set ms \<Longrightarrow> ok m) \<Longrightarrow> ok (evalArgs ms)"
  by (induction ms) (auto intro!: ok_rules)

lemma ok_evalPairs: "(\<And>m. m \<in> set ms \<Longrightarrow> ok m) \<Longrightarrow> length ks = length ms \<Longrightarrow> ok (evalPairs out ks ms)"
  by (induction out ks ms rule: evalPairs.induct) (auto intro!: ok_rules)

lemma ok_evalBinary: "op \<in> set binary_ops \<Longrightarrow> ok l \<Longrightarrow> ok r \<Longrightarrow> ok (evalBinary op l r)"
  by (auto simp: evalBinary_def and_then_def or_else_def intro!: ok_rules ok_binary_val)

lemma ok_evalFuncCall:
  assumes "call_ok f (length ms)" "\<And>m. m \<in> set ms \<Longrightarrow> ok m"
  shows "ok (evalFuncCall f ms)"
proof (cases "f = ''if''")
  case True
  with assms(1) obtain c t e where "ms = [c, t, e]"
    by (auto simp: call_ok_if length_Suc_conv numeral_3_eq_3)
  with True assms(2) show ?thesis by (auto simp: evalFuncCall_def intro!: ok_rules)
next
  case False
  have "ok (ev_bind (evalArgs ms) (call_builtin f))"
  proof (rule ok_bind_result)
    show "ok (evalArgs ms)" by (rule ok_evalArgs [OF assms(2)])
    fix st vs st1
    assume "evalArgs ms st = (Inr vs, st1)"
    then have "length vs = length ms" by (rule evalArgs_length)
    with assms(1) show "ok (call_builtin f vs)" by (intro ok_call_builtin) simp
  qed
  with False assms(1) show ?thesis by (auto simp: evalFuncCall_def call_ok_def)
qed

lemma ok_evalNode: "wf_node nd \<Longrightarrow> ok (evalNode env nd)"
proof (induction env nd rule: evalNode.induct)
  case (12 env name coll init params body)
  then show ?case
    by (auto intro!: ok_rules ok_enterNode ok_combinator split: option.splits)
qed (auto intro!: ok_rules ok_enterNode ok_resolvePath lift_ok_rules ok_evalBinary ok_evalFuncCall
      ok_evalArgs ok_evalPairs)

lemma ok_after_enter:
  assumes "wf_node nd"
  obtains g where "evalNode env nd = ev_bind (enterNode env) g" "\<And>u. ok (g u)"
proof -
  have "\<exists>g. evalNode env nd = ev_bind (enterNode env) (\<lambda>_. g) \<and> ok g"
    using assms
    by (cases nd) (auto intro!: exI conjI refl ok_rules ok_resolvePath lift_ok_rules ok_evalBinary
        ok_evalFuncCall ok_evalArgs ok_evalPairs ok_combinator ok_enterNode ok_evalNode split: option.splits)
  then show ?thesis using that by blast
qed

end

section \<open>Its instances\<close>

text \<open>The stack of local frames comes back as it was.\<close>

definition same_frames :: "evalState \<Rightarrow> evalState \<Rightarrow> bool" where
  "same_frames st st' \<longleftrightarrow> frames st' = frames st"

text \<open>The budgets only fall; a step that returns leaves them non-negative when they were.\<close>

definition spent :: "evalState \<Rightarrow> evalState \<Rightarrow> bool" where
  "spent st st' \<longleftrightarrow> work st' \<le> work st \<and> visits st' \<le> visits st"

definition spent_within :: "evalState \<Rightarrow> evalState \<Rightarrow> bool" where
  "spent_within st st' \<longleftrightarrow> spent st st' \<and> (0 \<le> work st \<longrightarrow> 0 \<le> work st') \<and> (0 \<le> visits st \<longrightarrow> 0 \<le> visits st')"

interpretation stack: eval_contract same_frames "\<lambda>_. same_frames"
  by unfold_locales (auto simp: same_frames_def)

interpretation budgets: eval_contract spent_within "\<lambda>_. spent"
  by unfold_locales (auto simp: spent_within_def spent_def)

interpretation faultless: eval_contract "\<lambda>_ _. True" "\<lambda>e _ _. \<not> is_fault e"
  by unfold_locales auto

lemma evalNode_frames:
  assumes "wf_node nd" "evalNode env nd st = (r, st')"
  shows "frames st' = frames st"
  using stack.ok_evalNode [OF assms(1), of env] assms(2)
  by (cases r) (auto simp: keeps_def same_frames_def dest!: spec [of _ st])

lemma evalNode_no_fault:
  assumes "wf_node nd" "evalNode env nd st = (Inl e, st')"
  shows "\<not> is_fault e"
  using faultless.ok_evalNode [OF assms(1), of env] assms(2)
  by (auto simp: keeps_def dest!: spec [of _ st])

lemma enterNode_cases:
  obtains "enterNode env st = (Inr (), st\<lparr>work := work st - 1\<rparr>)" "1 \<le> work st"
  | "enterNode env st = (Inl EInterrupted, st\<lparr>work := work st - 1\<rparr>)" "1 \<le> work st"
  | "enterNode env st = (Inl EWork, st\<lparr>work := work st - 1\<rparr>)" "work st < 1"
  by (cases "work st < 1"; cases "eInterrupted env (work st - 1)"; cases "(work st - 1) mod 64 = 0")
    (auto simp: enterNode_def ev_bind_def debit_def Let_def)

lemma evalNode_spends:
  assumes "wf_node nd" "evalNode env nd st = (r, st')"
  shows "work st' < work st" "visits st' \<le> visits st"
    "r = Inr v \<Longrightarrow> 0 \<le> work st'" "r = Inr v \<Longrightarrow> 0 \<le> visits st \<Longrightarrow> 0 \<le> visits st'"
proof -
  obtain g where g: "evalNode env nd = ev_bind (enterNode env) g" "\<And>u. keeps spent_within (\<lambda>_. spent) (g u)"
    by (rule budgets.ok_after_enter [OF assms(1), of env]) (rule that)
  let ?st = "st\<lparr>work := work st - 1\<rparr>"
  have "(\<exists>e. r = Inl e \<and> st' = ?st) \<or> (1 \<le> work st \<and> g () ?st = (r, st'))"
    using assms(2) by (cases env st rule: enterNode_cases) (auto simp: g(1) ev_bind_def)
  moreover have "out_ok spent_within (\<lambda>_. spent) ?st (g () ?st)" using g(2) by (simp add: keeps_def)
  ultimately show "work st' < work st" "visits st' \<le> visits st"
    "r = Inr v \<Longrightarrow> 0 \<le> work st'" "r = Inr v \<Longrightarrow> 0 \<le> visits st \<Longrightarrow> 0 \<le> visits st'"
    by (cases r; auto simp: spent_within_def spent_def)+
qed

lemma eval_ast_no_fault: "wf_node nd \<Longrightarrow> eval_ast env budget (Some nd) = Inl e \<Longrightarrow> \<not> is_fault e"
  by (auto simp: eval_ast_def split: if_splits) (metis evalNode_no_fault prod.collapse)

end
