(* ===== verification/ExprBuiltinOk.thy ===== *)
theory ExprBuiltinOk
  imports ExprEvalOk "HOL-Library.Sublist"
begin

text \<open>
  What the builtins compute, on the branch where the budget allows it: sorting is a stable sort,
  \<open>unique\<close> keeps the first element of each rendering, \<open>slice\<close> and \<open>tail\<close> are windows, \<open>sum\<close> is
  the integer sum, \<open>join\<close> pays for the string it builds.
\<close>

lemma debit_Inr: "debit n st = (Inr u, st') \<longleftrightarrow> n \<le> work st \<and> st' = st\<lparr>work := work st - n\<rparr>"
  by (auto simp: debit_def Let_def)

lemma ev_bind_Inr:
  "ev_bind m f st = (Inr y, st2) \<longleftrightarrow> (\<exists>x st1. m st = (Inr x, st1) \<and> f x st1 = (Inr y, st2))"
  by (auto simp: ev_bind_def split: prod.splits sum.splits)

lemma ev_return_Inr: "ev_return x st = (Inr y, st') \<longleftrightarrow> y = x \<and> st' = st"
  by (auto simp: ev_return_def)

lemmas ev_Inr = debit_Inr ev_bind_Inr ev_return_Inr

section \<open>Sorting\<close>

lemma sort_lt_asym: "sort_lt arr a b \<Longrightarrow> \<not> sort_lt arr b a"
  by (auto simp: sort_lt_def dest: f_lt_asym split: if_splits)

lemma sort_lt_weak:
  assumes "\<forall>v \<in> {a, b, c}. \<not> f_is_nan (num_of v)" "\<not> sort_lt arr b a" "\<not> sort_lt arr c b"
  shows "\<not> sort_lt arr c a"
proof (cases "list_all (\<lambda>v. toFloat v \<noteq> None) arr")
  case True
  with assms f_not_lt_trans [of "num_of a" "num_of b" "num_of c"] show ?thesis by (simp add: sort_lt_def)
next
  case False
  then have "fmtv a \<le> fmtv b" "fmtv b \<le> fmtv c" using assms(2,3) by (simp_all add: sort_lt_def not_less)
  with False show ?thesis by (simp add: sort_lt_def not_less)
qed

text \<open>Sortedness of the insertion sort when the order is weak on the elements present.\<close>

lemma sorted_insert_stable_on:
  assumes asym: "\<And>x y. lt x y \<Longrightarrow> \<not> lt y x"
    and trans: "\<And>x y z. x \<in> insert a (set xs) \<Longrightarrow> y \<in> insert a (set xs) \<Longrightarrow> z \<in> insert a (set xs) \<Longrightarrow>
      \<not> lt y x \<Longrightarrow> \<not> lt z y \<Longrightarrow> \<not> lt z x"
    and "sorted_wrt (\<lambda>x y. \<not> lt y x) xs"
  shows "sorted_wrt (\<lambda>x y. \<not> lt y x) (insert_stable lt a xs)"
  using assms(2,3)
proof (induction xs)
  case (Cons y ys)
  have IH: "sorted_wrt (\<lambda>x y. \<not> lt y x) (insert_stable lt a ys)"
    using Cons.prems by (intro Cons.IH) auto
  show ?case
  proof (cases "lt y a")
    case True
    with IH Cons.prems(2) asym show ?thesis by auto
  next
    case False
    have "\<not> lt z a" if "z \<in> set ys" for z
      using Cons.prems(1) [of a y z] that False Cons.prems(2) by auto
    with False Cons.prems(2) show ?thesis by auto
  qed
qed simp

lemma sorted_sort_stable_on:
  assumes "\<And>x y. lt x y \<Longrightarrow> \<not> lt y x"
    and "\<And>x y z. x \<in> set xs \<Longrightarrow> y \<in> set xs \<Longrightarrow> z \<in> set xs \<Longrightarrow> \<not> lt y x \<Longrightarrow> \<not> lt z y \<Longrightarrow> \<not> lt z x"
  shows "sorted_wrt (\<lambda>x y. \<not> lt y x) (sort_stable lt xs)"
  using assms(2)
proof (induction xs)
  case (Cons x xs)
  have IH: "sorted_wrt (\<lambda>x y. \<not> lt y x) (sort_stable lt xs)"
  proof (rule Cons.IH)
    fix a b c
    assume "a \<in> set xs" "b \<in> set xs" "c \<in> set xs" "\<not> lt b a" "\<not> lt c b"
    then show "\<not> lt c a" using Cons.prems [of a b c] by simp
  qed
  have "sorted_wrt (\<lambda>x y. \<not> lt y x) (insert_stable lt x (sort_stable lt xs))"
  proof (rule sorted_insert_stable_on [OF assms(1) _ IH])
    fix a b c
    assume "a \<in> insert x (set (sort_stable lt xs))" "b \<in> insert x (set (sort_stable lt xs))"
      "c \<in> insert x (set (sort_stable lt xs))" "\<not> lt b a" "\<not> lt c b"
    then show "\<not> lt c a" using Cons.prems [of a b c] by simp
  qed
  then show ?case by simp
qed simp

lemma builtinSort_result:
  assumes "builtinSort [a] st = (Inr v, st')" "toElemSlice a = Inr arr"
    and "\<forall>x \<in> set arr. \<not> f_is_nan (num_of x)"
  obtains out where "v = VList out" "mset out = mset arr" "sorted_wrt (\<lambda>x y. \<not> sort_lt arr y x) out"
    "st' = st\<lparr>work := work st - int (length arr)\<rparr>"
proof (rule that)
  show "sorted_wrt (\<lambda>x y. \<not> sort_lt arr y x) (sort_stable (sort_lt arr) arr)"
  proof (rule sorted_sort_stable_on)
    fix x y z
    assume "x \<in> set arr" "y \<in> set arr" "z \<in> set arr" "\<not> sort_lt arr y x" "\<not> sort_lt arr z y"
    then show "\<not> sort_lt arr z x" using assms(3) by (intro sort_lt_weak [of x y z]) auto
  qed (rule sort_lt_asym)
qed (use assms in \<open>auto simp: ev_Inr\<close>)

section \<open>\<open>unique\<close>\<close>

lemma uniqueLoop_result:
  "uniqueLoop seen out vs st = (Inr v, st') \<Longrightarrow>
   \<exists>ys. v = VList (out @ ys) \<and> subseq ys vs \<and> distinct (map fmtv ys) \<and>
     fmtv ` set ys = fmtv ` set vs - set seen"
proof (induction seen out vs arbitrary: st rule: uniqueLoop.induct)
  case (2 seen out x vs)
  from "2.prems" obtain st1 where st1:
    "(if fmtv x \<in> set seen then uniqueLoop seen out vs
       else uniqueLoop (fmtv x # seen) (out @ [x]) vs) st1 = (Inr v, st')"
    by (auto simp: ev_Inr)
  show ?case
  proof (cases "fmtv x \<in> set seen")
    case True
    with "2.IH"(1) st1 obtain ys where "v = VList (out @ ys)" "subseq ys vs" "distinct (map fmtv ys)"
      "fmtv ` set ys = fmtv ` set vs - set seen" by fastforce
    with True show ?thesis by (intro exI [of _ ys]) auto
  next
    case False
    with "2.IH"(2) st1 obtain ys where ys: "v = VList ((out @ [x]) @ ys)" "subseq ys vs"
      "distinct (map fmtv ys)" "fmtv ` set ys = fmtv ` set vs - set (fmtv x # seen)" by fastforce
    then have "fmtv x \<notin> fmtv ` set ys" by simp
    with ys False show ?thesis by (intro exI [of _ "x # ys"]) auto
  qed
qed (auto simp: ev_Inr)

section \<open>Windows\<close>

lemma clamp_range: "0 \<le> n \<Longrightarrow> 0 \<le> clamp_index n i \<and> clamp_index n i \<le> n"
  by (auto simp: clamp_index_def Let_def)

lemma take_drop_nths:
  "take (e - s) (drop s xs) = nths xs {i. s \<le> i \<and> i < e}"
proof (induction xs arbitrary: s e)
  case (Cons x xs)
  show ?case
  proof (cases s)
    case 0
    then show ?thesis using Cons.IH [where s = 0 and e = "e - 1"]
      by (cases e) (simp_all add: nths_Cons)
  next
    case (Suc s')
    have "{j. Suc j \<in> {i. s \<le> i \<and> i < e}} = {i. s' \<le> i \<and> i < e - 1}" using Suc by auto
    then show ?thesis using Cons.IH [where s = s' and e = "e - 1"] Suc by (simp add: nths_Cons diff_commute)
  qed
qed simp

lemma window_nths:
  fixes p q :: int
  assumes "0 \<le> p"
  shows "take (nat ((if q < p then p else q) - p)) (drop (nat p) xs) = nths xs {i. p \<le> int i \<and> int i < q}"
proof -
  let ?e = "if q < p then p else q"
  have "nat (?e - p) = nat ?e - nat p" using assms by (simp add: nat_diff_distrib)
  then have "take (nat (?e - p)) (drop (nat p) xs) = nths xs {i. nat p \<le> i \<and> i < nat ?e}"
    by (simp only: take_drop_nths)
  also have "{i. nat p \<le> i \<and> i < nat ?e} = {i. p \<le> int i \<and> int i < q}"
    using assms by (auto simp: nat_le_iff zless_nat_eq_int_zless split: if_splits)
  finally show ?thesis .
qed

lemma builtinSlice_result:
  assumes "builtinSlice [a, x, y] st = (Inr v, st')" "toElemSlice a = Inr arr"
    "toInt x = Some m" "toInt y = Some n"
  shows "v = VList (nths arr {i. clamp_index (int (length arr)) (sint m) \<le> int i \<and>
      int i < clamp_index (int (length arr)) (sint n)})"
proof -
  let ?s = "clamp_index (int (length arr)) (sint m)" and ?e0 = "clamp_index (int (length arr)) (sint n)"
  have "v = VList (take (nat ((if ?e0 < ?s then ?s else ?e0) - ?s)) (drop (nat ?s) arr))"
    using assms by (simp add: ev_Inr Let_def)
  then show ?thesis using clamp_range [of "int (length arr)" "sint m"] by (simp only: window_nths)
qed

lemma builtinTail_result:
  assumes "builtinTail [VList arr, x] st = (Inr v, st')" "toInt x = Some n"
  shows "\<exists>ys zs. v = VList zs \<and> arr = ys @ zs \<and> int (length zs) = max 0 (min (sint n) (int (length arr)))"
proof -
  consider "sint n \<le> 0" | "0 < sint n" "int (length arr) \<le> sint n" | "0 < sint n" "sint n < int (length arr)"
    by linarith
  then show ?thesis
  proof cases
    case 3
    with assms have "v = VList (drop (length arr - nat (sint n)) arr)" by (auto simp: ev_Inr)
    with 3 show ?thesis
      by (intro exI [of _ "take (length arr - nat (sint n)) arr"] exI [of _ "drop (length arr - nat (sint n)) arr"])
        auto
  qed (use assms in \<open>auto simp: ev_Inr\<close>)
qed

section \<open>\<open>sum\<close>\<close>

lemma sumInt_exact:
  "list_all2 (\<lambda>v w. toInt v = Some w) vs ws \<Longrightarrow>
   sumInt isum vs = Inr v \<Longrightarrow> v = VInt KInt64 (sint isum + sum_list (map sint ws))"
proof (induction vs arbitrary: ws isum)
  case Nil
  then show ?case by (simp add: v_int64_def)
next
  case (Cons x vs)
  from Cons.prems(1) obtain w ws' where ws: "ws = w # ws'" "toInt x = Some w"
    "list_all2 (\<lambda>v w. toInt v = Some w) vs ws'" by (auto simp: list_all2_Cons1)
  with Cons.prems(2) obtain r where r: "addCheckedInt64 isum w = Some r" "sumInt r vs = Inr v"
    by (auto split: option.splits)
  then have "sint r = sint isum + sint w"
    using sint_word_of_int64 [of "sint isum + sint w"]
    by (auto simp: addCheckedInt64_exact simp del: of_int_add split: if_splits)
  with Cons.IH [OF ws(3) r(2)] ws show ?case by simp
qed

section \<open>\<open>join\<close> pays for what it builds\<close>

lemma joinLoop_cost:
  "joinLoop sep first out vs st = (Inr v, st') \<Longrightarrow>
   \<exists>s. v = VString (out @ s) \<and> int (length s) \<le> work st - work st' \<and> 0 \<le> work st - work st'"
proof (induction sep first out vs arbitrary: st rule: joinLoop.induct)
  case (2 sep first out x vs)
  let ?o = "out @ (if first then [] else sep) @ fmtv x"
  from "2.prems" have "joinLoop sep False ?o vs (st\<lparr>work := work st - int (length (fmtv x) + length sep)\<rparr>) = (Inr v, st')"
    by (auto simp: ev_Inr)
  from "2.IH" [OF this] obtain s where "v = VString (?o @ s)"
    "int (length s) \<le> work st - int (length (fmtv x) + length sep) - work st'"
    "0 \<le> work st - int (length (fmtv x) + length sep) - work st'" by auto
  then show ?case by (intro exI [of _ "(if first then [] else sep) @ fmtv x @ s"]) auto
qed (auto simp: ev_Inr)

end
