(* ===== verification/ExprRefs.thy ===== *)
theory ExprRefs
  imports ExprEvalOk
begin

text \<open>
  The static readings of a tree: the references it can read (\<open>Refs\<close>), the ones it iterates
  (\<open>IteratedRefs\<close>), the strict boolean shape, \<open>NormalizePath\<close> and the exported mirror of
  \<open>snapshot.go\<close>. The main lemma is that an evaluation depends on its context through the
  references alone, and on its budgets only through running out of them.
\<close>

section \<open>Reference walkers\<close>

type_synonym ref = "string \<times> string list"

text \<open>The callback's calls in order; \<open>bd\<close> lists the lambda-bound names.\<close>

fun walkRefsBound :: "string list \<Rightarrow> node \<Rightarrow> ref list" where
  "walkRefsBound bd (PathNode ns path) = (if ns \<in> set bd then [] else [(ns, path)])"
| "walkRefsBound bd (UnaryNode op c) = walkRefsBound bd c"
| "walkRefsBound bd (BinaryNode op l r) = walkRefsBound bd l @ walkRefsBound bd r"
| "walkRefsBound bd (FuncCallNode f args) = concat (map (walkRefsBound bd) args)"
| "walkRefsBound bd (IndexNode r i) = walkRefsBound bd r @ walkRefsBound bd i"
| "walkRefsBound bd (ListLit es) = concat (map (walkRefsBound bd) es)"
| "walkRefsBound bd (ObjectLit ks vs) = concat (map (walkRefsBound bd) vs)"
| "walkRefsBound bd (LambdaCombNode f coll init params body) =
     walkRefsBound bd coll @ (case init of None \<Rightarrow> [] | Some i \<Rightarrow> walkRefsBound bd i) @
     walkRefsBound (bd @ params) body"
| "walkRefsBound bd _ = []"

definition walkRefs :: "node \<Rightarrow> ref list" where
  "walkRefs nd = walkRefsBound [] nd"

fun walkIteratedBound :: "bool \<Rightarrow> string list \<Rightarrow> node \<Rightarrow> ref list" where
  "walkIteratedBound it bd (PathNode ns path) =
     (if ns \<in> set bd then [] else if it then [(ns, path)] else [])"
| "walkIteratedBound it bd (UnaryNode op c) = walkIteratedBound it bd c"
| "walkIteratedBound it bd (BinaryNode op l r) = walkIteratedBound it bd l @ walkIteratedBound it bd r"
| "walkIteratedBound it bd (FuncCallNode f args) = concat (map (walkIteratedBound False bd) args)"
| "walkIteratedBound it bd (IndexNode r i) = walkIteratedBound False bd r @ walkIteratedBound False bd i"
| "walkIteratedBound it bd (ListLit es) = concat (map (walkIteratedBound False bd) es)"
| "walkIteratedBound it bd (ObjectLit ks vs) = concat (map (walkIteratedBound False bd) vs)"
| "walkIteratedBound it bd (LambdaCombNode f coll init params body) =
     walkIteratedBound True bd coll @ (case init of None \<Rightarrow> [] | Some i \<Rightarrow> walkIteratedBound False bd i) @
     walkIteratedBound False (bd @ params) body"
| "walkIteratedBound it bd _ = []"

fun joinPath :: "string list \<Rightarrow> string" where
  "joinPath [] = []"
| "joinPath [s] = s"
| "joinPath (s # t # ss) = s @ ''.'' @ joinPath (t # ss)"

definition ref_key :: "ref \<Rightarrow> string" where
  "ref_key r = fst r @ '':'' @ joinPath (snd r)"

text \<open>The first reference of each key, in the walk's order.\<close>

fun dedupe :: "string list \<Rightarrow> ref list \<Rightarrow> ref list" where
  "dedupe seen [] = []"
| "dedupe seen (r # rs) =
     (if ref_key r \<in> set seen then dedupe seen rs else r # dedupe (ref_key r # seen) rs)"

definition Refs :: "node option \<Rightarrow> ref list" where
  "Refs ast = (case ast of None \<Rightarrow> [] | Some nd \<Rightarrow> dedupe [] (walkRefs nd))"

definition IteratedRefs :: "node option \<Rightarrow> ref list" where
  "IteratedRefs ast = (case ast of None \<Rightarrow> [] | Some nd \<Rightarrow> dedupe [] (walkIteratedBound False [] nd))"

fun isBoolAlgebraNode :: "node \<Rightarrow> bool" where
  "isBoolAlgebraNode (PathNode ns path) = True"
| "isBoolAlgebraNode (UnaryNode op c) = (op = ''!'' \<and> isBoolAlgebraNode c)"
| "isBoolAlgebraNode (BinaryNode op l r) =
     ((op = ''&&'' \<or> op = ''||'') \<and> isBoolAlgebraNode l \<and> isBoolAlgebraNode r)"
| "isBoolAlgebraNode _ = False"

definition IsBoolAlgebraOverRefs :: "node option \<Rightarrow> bool" where
  "IsBoolAlgebraOverRefs ast = (case ast of None \<Rightarrow> False | Some nd \<Rightarrow> isBoolAlgebraNode nd)"

text \<open>\<open>NormalizePath\<close>: a leading identifier that is no namespace is a field of \<open>input\<close>.\<close>

definition NormalizePath :: "string \<Rightarrow> string list \<Rightarrow> ref" where
  "NormalizePath ns path = (if isEvalNamespace ns then (ns, path) else (''input'', ns # path))"

section \<open>The exported mirror\<close>

datatype SnapKind =
    SnapBool | SnapInt | SnapFloat | SnapString | SnapPath | SnapUnary | SnapBinary | SnapFuncCall
  | SnapIndex | SnapList | SnapObject | SnapLambdaComb

text \<open>\<open>Snapshot\<close>: kind, operator, function, namespace, path, string, keys, children, lambda body.\<close>

datatype snapshot =
  Snapshot (snKind: SnapKind) (snOp: string) (snFunc: string) (snNamespace: string)
    (snPath: "string list") (snStr: string) (snKeys: "string list") (snChildren: "snapshot list")
    (snBody: "snapshot option")

fun snap :: "node \<Rightarrow> snapshot" where
  "snap (LitBool b) = Snapshot SnapBool [] [] [] [] [] [] [] None"
| "snap (LitInt i) = Snapshot SnapInt [] [] [] [] [] [] [] None"
| "snap (LitFloat f) = Snapshot SnapFloat [] [] [] [] [] [] [] None"
| "snap (LitString s) = Snapshot SnapString [] [] [] [] s [] [] None"
| "snap (PathNode ns path) = Snapshot SnapPath [] [] ns path [] [] [] None"
| "snap (UnaryNode op c) = Snapshot SnapUnary op [] [] [] [] [] [snap c] None"
| "snap (BinaryNode op l r) = Snapshot SnapBinary op [] [] [] [] [] [snap l, snap r] None"
| "snap (FuncCallNode f args) = Snapshot SnapFuncCall [] f [] [] [] [] (map snap args) None"
| "snap (IndexNode r i) = Snapshot SnapIndex [] [] [] [] [] [] [snap r, snap i] None"
| "snap (ListLit es) = Snapshot SnapList [] [] [] [] [] [] (map snap es) None"
| "snap (ObjectLit ks vs) = Snapshot SnapObject [] [] [] [] [] ks (map snap vs) None"
| "snap (LambdaCombNode f coll init params body) =
     Snapshot SnapLambdaComb [] f [] [] [] []
       (snap coll # (case init of None \<Rightarrow> [] | Some i \<Rightarrow> [snap i])) (Some (snap body))"

definition ToSnapshot :: "node option \<Rightarrow> snapshot option" where
  "ToSnapshot ast = map_option snap ast"

section \<open>Keys tell references apart\<close>

lemma mark_not_ident [simp]: "\<not> isIdentCont CHR ''.''" "\<not> isIdentCont CHR '':''"
  by (simp_all add: isIdentCont_def isIdentStart_def is_digit_def byte_def)

lemma ident_no_mark: "ident_ok s \<Longrightarrow> CHR ''.'' \<notin> set s \<and> CHR '':'' \<notin> set s"
  by (auto simp: ident_ok_def)

definition ref_ok :: "ref \<Rightarrow> bool" where
  "ref_ok r \<longleftrightarrow> ident_ok (fst r) \<and> (\<forall>seg \<in> set (snd r). ident_ok seg)"

lemma append_mark_inject:
  "c \<notin> set s \<Longrightarrow> c \<notin> set t \<Longrightarrow> s @ c # u = t @ c # v \<Longrightarrow> s = t \<and> u = v"
proof (induction s arbitrary: t)
  case Nil
  then show ?case by (cases t) auto
next
  case (Cons a s)
  then show ?case by (cases t) auto
qed

lemma mark_in_joinPath: "CHR ''.'' \<in> set (joinPath (s # t # ss))"
  by simp

lemma joinPath_inject:
  "\<forall>s \<in> set p. ident_ok s \<Longrightarrow> \<forall>s \<in> set q. ident_ok s \<Longrightarrow> joinPath p = joinPath q \<Longrightarrow> p = q"
proof (induction p arbitrary: q rule: joinPath.induct)
  case 1
  then show ?case by (cases q rule: joinPath.cases) (auto simp: ident_ok_def)
next
  case (2 s)
  then show ?case
    by (cases q rule: joinPath.cases) (auto simp: ident_ok_def)
next
  case (3 s t ss)
  then show ?case
  proof (cases q rule: joinPath.cases)
    case (3 s' t' ss')
    have no: "CHR ''.'' \<notin> set s" "CHR ''.'' \<notin> set s'"
      using 3 "3.prems" by (auto dest!: ident_no_mark)
    have "s = s' \<and> joinPath (t # ss) = joinPath (t' # ss')"
      using append_mark_inject [OF no] "3.prems"(3) 3 by simp
    with "3.IH" [of "t' # ss'"] "3.prems" 3 show ?thesis by simp
  qed (auto dest!: ident_no_mark)
qed

lemma ref_key_inject: "ref_ok r \<Longrightarrow> ref_ok r' \<Longrightarrow> ref_key r = ref_key r' \<Longrightarrow> r = r'"
  unfolding ref_key_def ref_ok_def
  by (metis append_Cons append_Nil append_mark_inject ident_no_mark joinPath_inject prod.collapse)

lemma dedupe_keys: "ref_key ` set (dedupe seen rs) = ref_key ` set rs - set seen"
  by (induction seen rs rule: dedupe.induct) auto

lemma dedupe_subset: "set (dedupe seen rs) \<subseteq> set rs"
  by (induction seen rs rule: dedupe.induct) auto

lemma dedupe_distinct: "distinct (map ref_key (dedupe seen rs))"
proof (induction seen rs rule: dedupe.induct)
  case (2 seen r rs)
  have "ref_key r \<notin> ref_key ` set (dedupe (ref_key r # seen) rs)"
    unfolding dedupe_keys by simp
  with 2 show ?case by simp
qed simp

lemma walkRefsBound_ok: "wf_node nd \<Longrightarrow> r \<in> set (walkRefsBound bd nd) \<Longrightarrow> ref_ok r"
  by (induction bd nd rule: walkRefsBound.induct) (auto simp: ref_ok_def split: if_splits option.splits)

lemma set_Refs:
  assumes "wf_node nd"
  shows "set (Refs (Some nd)) = set (walkRefs nd)"
proof
  show "set (Refs (Some nd)) \<subseteq> set (walkRefs nd)" by (simp add: Refs_def dedupe_subset)
  show "set (walkRefs nd) \<subseteq> set (Refs (Some nd))"
  proof
    fix r
    assume r: "r \<in> set (walkRefs nd)"
    then have "ref_key r \<in> ref_key ` set (dedupe [] (walkRefs nd))" by (simp add: dedupe_keys)
    then obtain r' where r': "r' \<in> set (dedupe [] (walkRefs nd))" "ref_key r' = ref_key r" by auto
    then have "r' \<in> set (walkRefs nd)" using dedupe_subset by blast
    with r r' assms have "r' = r"
      by (intro ref_key_inject) (auto simp: walkRefs_def intro: walkRefsBound_ok)
    with r' show "r \<in> set (Refs (Some nd))" by (simp add: Refs_def)
  qed
qed

lemma walkIterated_subset: "set (walkIteratedBound it bd nd) \<subseteq> set (walkRefsBound bd nd)"
  by (induction it bd nd rule: walkIteratedBound.induct) (fastforce split: option.splits)+

lemma NormalizePath_idem: "NormalizePath ns path = (ns', path') \<Longrightarrow> NormalizePath ns' path' = (ns', path')"
  by (auto simp: NormalizePath_def isEvalNamespace_def evalNamespaces_def split: if_splits)

section \<open>An evaluation depends on its references alone\<close>

definition frame_names :: "frame list \<Rightarrow> string set" where
  "frame_names fs = (\<Union>f \<in> set fs. fst ` set f)"

lemma frame_names_Cons [simp]: "frame_names (f # fs) = fst ` set f \<union> frame_names fs"
  by (simp add: frame_names_def)

lemma lookup_frames_None: "lookup_frames fs name = None \<longleftrightarrow> name \<notin> frame_names fs"
proof (induction fs)
  case (Cons f fs)
  show ?case
  proof (cases "map_of f name")
    case None
    then have "name \<notin> fst ` set f" by (simp add: map_of_eq_None_iff)
    moreover have "lookup_frames (f # fs) name = lookup_frames fs name" using None by simp
    ultimately show ?thesis using Cons by simp
  next
    case (Some v)
    then have "name \<in> fst ` set f" by (force dest: map_of_SomeD)
    with Some show ?thesis by simp
  qed
qed (simp add: frame_names_def)

definition more :: "int \<Rightarrow> int \<Rightarrow> evalState \<Rightarrow> evalState" where
  "more j k st = st\<lparr>visits := visits st + j, work := work st + k\<rparr>"

lemma more_frames [simp]:
  "frames (more j k st) = frames st"
  "(more j k st)\<lparr>frames := fs\<rparr> = more j k (st\<lparr>frames := fs\<rparr>)"
  by (simp_all add: more_def)

text \<open>
  \<open>m'\<close> follows \<open>m\<close>: what \<open>m\<close> returns from a state whose frames bind at least \<open>B\<close>, \<open>m'\<close> returns
  from the same state with more of either budget.
\<close>

definition follows :: "string set \<Rightarrow> 'a ev \<Rightarrow> 'a ev \<Rightarrow> bool" where
  "follows B m m' \<longleftrightarrow>
     (\<forall>j k st x st1. 0 \<le> j \<longrightarrow> 0 \<le> k \<longrightarrow> B \<subseteq> frame_names (frames st) \<longrightarrow> m st = (Inr x, st1) \<longrightarrow>
        frames st1 = frames st \<and> m' (more j k st) = (Inr x, more j k st1))"

lemma followsI:
  assumes "\<And>j k st x st1. 0 \<le> j \<Longrightarrow> 0 \<le> k \<Longrightarrow> B \<subseteq> frame_names (frames st) \<Longrightarrow> m st = (Inr x, st1) \<Longrightarrow>
    frames st1 = frames st \<and> m' (more j k st) = (Inr x, more j k st1)"
  shows "follows B m m'"
  unfolding follows_def using assms by blast

lemma follows_return: "follows B (ev_return x) (ev_return x)"
  by (auto simp: follows_def ev_return_def)

lemma follows_fail: "follows B (ev_fail e) m"
  by (auto simp: follows_def ev_fail_def)

lemma follows_lift: "follows B (ev_lift r) (ev_lift r)"
  by (auto simp: follows_def ev_lift_def)

lemma follows_if: "(b \<Longrightarrow> follows B x x') \<Longrightarrow> (\<not> b \<Longrightarrow> follows B y y') \<Longrightarrow>
    follows B (if b then x else y) (if b then x' else y')"
  by simp

lemma follows_bind:
  assumes m: "follows B m m'" and f: "\<And>x. follows B (f x) (f' x)"
  shows "follows B (ev_bind m f) (ev_bind m' f')"
proof (rule followsI)
  fix j k :: int and st :: evalState and y st2
  assume h: "0 \<le> j" "0 \<le> k" "B \<subseteq> frame_names (frames st)" "ev_bind m f st = (Inr y, st2)"
  then obtain x st1 where 1: "m st = (Inr x, st1)" "f x st1 = (Inr y, st2)"
    by (auto simp: ev_bind_def split: prod.splits sum.splits)
  with m h have a: "frames st1 = frames st" "m' (more j k st) = (Inr x, more j k st1)"
    unfolding follows_def by blast+
  moreover have "B \<subseteq> frame_names (frames st1)" using a h by simp
  ultimately have "frames st2 = frames st1" "f' x (more j k st1) = (Inr y, more j k st2)"
    using f [of x] h 1 unfolding follows_def by blast+
  with a show "frames st2 = frames st \<and> ev_bind m' f' (more j k st) = (Inr y, more j k st2)"
    by (simp add: ev_bind_def)
qed

lemma follows_debit: "follows B (debit n) (debit n)"
  by (auto simp: follows_def debit_def Let_def more_def split: if_splits)

lemma follows_consume: "follows B consume consume"
  by (auto simp: follows_def consume_def Let_def more_def split: if_splits)

lemma follows_withFrame:
  assumes "follows (fst ` set fr \<union> B) m m'"
  shows "follows B (withFrame fr m) (withFrame fr m')"
proof (rule followsI)
  fix j k :: int and st :: evalState and x st2
  let ?st = "st\<lparr>frames := fr # frames st\<rparr>"
  assume h: "0 \<le> j" "0 \<le> k" "B \<subseteq> frame_names (frames st)" "withFrame fr m st = (Inr x, st2)"
  then obtain st1 where 1: "m ?st = (Inr x, st1)" "st2 = st1\<lparr>frames := tl (frames st1)\<rparr>"
    by (auto simp: withFrame_def split: prod.splits)
  have "fst ` set fr \<union> B \<subseteq> frame_names (frames ?st)" using h by auto
  with assms h 1 have "frames st1 = frames ?st" "m' (more j k ?st) = (Inr x, more j k st1)"
    unfolding follows_def by blast+
  with 1 show "frames st2 = frames st \<and> withFrame fr m' (more j k st) = (Inr x, more j k st2)"
    by (simp add: withFrame_def)
qed

lemma follows_enterNode:
  "(\<And>w. \<not> eInterrupted env' w) \<Longrightarrow> follows B (enterNode env) (enterNode env')"
  unfolding enterNode_def
  by (rule follows_bind, rule follows_debit) (auto simp: follows_def split: if_splits)

lemma follows_resolvePath:
  assumes "ns \<in> B \<or> resolve_ctx (eCtx env) ns path = resolve_ctx (eCtx env') ns path"
  shows "follows B (resolvePath env ns path) (resolvePath env' ns path)"
proof (rule followsI)
  fix j k :: int and st :: evalState and x st1
  assume h: "B \<subseteq> frame_names (frames st)" "resolvePath env ns path st = (Inr x, st1)"
  have "lookup_frames (frames st) ns = None \<Longrightarrow> ns \<notin> B"
    using h(1) by (auto simp: lookup_frames_None)
  with assms h(2) show "frames st1 = frames st \<and> resolvePath env' ns path (more j k st) = (Inr x, more j k st1)"
    by (cases "lookup_frames (frames st) ns") (auto simp: resolvePath_def lookupLocal_def)
qed

lemmas follows_rules = follows_if follows_return follows_fail follows_lift follows_bind follows_debit
  follows_consume follows_withFrame follows_enterNode

lemma follows_loops:
  "follows B (concatLoop i out args) (concatLoop i out args)"
  "follows B (uniqueLoop seen out vs) (uniqueLoop seen out vs)"
  "follows B (joinLoop sep first s vs) (joinLoop sep first s vs)"
  "follows B (flattenLoop out vs) (flattenLoop out vs)"
proof -
  show "follows B (concatLoop i out args) (concatLoop i out args)"
    by (induction i out args rule: concatLoop.induct) (auto intro!: follows_rules split: sum.splits)
  show "follows B (uniqueLoop seen out vs) (uniqueLoop seen out vs)"
    by (induction seen out vs rule: uniqueLoop.induct) (auto intro!: follows_rules)
  show "follows B (joinLoop sep first s vs) (joinLoop sep first s vs)"
    by (induction sep first s vs rule: joinLoop.induct) (auto intro!: follows_rules)
  show "follows B (flattenLoop out vs) (flattenLoop out vs)"
    by (induction out vs rule: flattenLoop.induct) (auto intro!: follows_rules split: gval.splits)
qed

lemma follows_one:
  "follows B (builtinUnique args) (builtinUnique args)" "follows B (builtinSort args) (builtinSort args)"
  "follows B (builtinKeys args) (builtinKeys args)" "follows B (builtinValues args) (builtinValues args)"
  "follows B (builtinSum args) (builtinSum args)" "follows B (builtinFlatten args) (builtinFlatten args)"
  "follows B (builtinLength args) (builtinLength args)"
  by (cases args rule: builtinSort.cases;
      auto simp: wrong_args_def intro!: follows_rules follows_loops split: gval.splits sum.splits)+

lemma follows_two:
  "follows B (builtinContains args) (builtinContains args)" "follows B (builtinTail args) (builtinTail args)"
  "follows B (builtinJoin args) (builtinJoin args)"
  by (cases args rule: builtinTail.cases;
      auto simp: wrong_args_def intro!: follows_rules follows_loops split: gval.splits option.splits)+

lemma follows_three:
  "follows B (builtinIf args) (builtinIf args)" "follows B (builtinSlice args) (builtinSlice args)"
  by (cases args rule: builtinIf.cases;
      auto simp: wrong_args_def Let_def intro!: follows_rules split: sum.splits option.splits)+

lemma follows_any:
  "follows B (builtinConcat args) (builtinConcat args)" "follows B (minMax w args) (minMax w args)"
  "follows B (numberToInt w fn args) (numberToInt w fn args)"
  by (auto simp: builtinConcat_def minMax_def numberToInt_def wrong_args_def Let_def
      intro!: follows_rules follows_loops split: sum.splits option.splits list.splits)

lemma follows_run_builtin: "follows B (run_builtin b args) (run_builtin b args)"
  by (cases b) (auto intro: follows_one follows_two follows_three follows_any
      simp del: builtinSlice.simps builtinLength.simps builtinUnique.simps builtinContains.simps
        builtinTail.simps builtinIf.simps builtinJoin.simps builtinSort.simps builtinKeys.simps
        builtinValues.simps builtinSum.simps builtinFlatten.simps)

lemma follows_call_builtin: "follows B (call_builtin f args) (call_builtin f args)"
  by (auto simp: call_builtin_def follows_run_builtin intro!: follows_rules split: option.splits)

lemma follows_binary_val: "follows B (binary_val op l r) (binary_val op l r)"
  by (auto simp: binary_val_def intro!: follows_rules split: option.splits)

lemma follows_mapLoop: "(\<And>v. follows B (g v) (g' v)) \<Longrightarrow> follows B (mapLoop g out els) (mapLoop g' out els)"
  by (induction els arbitrary: out) (auto intro!: follows_rules)

lemma follows_filterLoop:
  "(\<And>v. follows B (g v) (g' v)) \<Longrightarrow> follows B (filterLoop g out els) (filterLoop g' out els)"
  by (induction els arbitrary: out) (auto intro!: follows_rules)

lemma follows_reduceLoop:
  "(\<And>a v. follows B (g a v) (g' a v)) \<Longrightarrow> follows B (reduceLoop g acc els) (reduceLoop g' acc els)"
  by (induction els arbitrary: acc) (auto intro!: follows_rules)

lemma follows_combinator:
  assumes "length params = (if f = ''reduce'' then 2 else 1)"
    and "follows (set params \<union> B) body body'" and "follows B init init'"
  shows "follows B (combinator f params init body coll) (combinator f params init' body' coll)"
proof (cases "f = ''reduce''")
  case True
  with assms obtain p q where p: "params = [p, q]" by (auto simp: length_Suc_conv numeral_2_eq_2)
  with assms(2) have "follows (insert q (insert p B)) body body'" by (simp add: insert_commute)
  with True p assms(3) show ?thesis
    by (auto simp: combinator_def body2_def intro!: follows_rules follows_reduceLoop split: sum.splits)
next
  case False
  with assms obtain p where "params = [p]" by (auto simp: length_Suc_conv)
  with False assms show ?thesis
    by (auto simp: combinator_def body1_def evalBody_def
        intro!: follows_rules follows_mapLoop follows_filterLoop split: sum.splits)
qed

lemma follows_evalArgs:
  "list_all2 (follows B) ms ms' \<Longrightarrow> follows B (evalArgs ms) (evalArgs ms')"
  by (induction rule: list_all2_induct) (auto intro!: follows_rules)

lemma follows_evalPairs:
  "list_all2 (follows B) ms ms' \<Longrightarrow> follows B (evalPairs out ks ms) (evalPairs out ks ms')"
proof (induction out ks ms arbitrary: ms' rule: evalPairs.induct)
  case (3 out k ks m ms)
  then obtain m' ms2 where "ms' = m' # ms2" "follows B m m'" "list_all2 (follows B) ms ms2"
    by (cases ms') auto
  with 3 show ?case by (auto intro!: follows_rules)
qed (auto intro!: follows_rules)

lemma follows_evalBinary:
  "follows B l l' \<Longrightarrow> follows B r r' \<Longrightarrow> follows B (evalBinary op l r) (evalBinary op l' r')"
  by (auto simp: evalBinary_def and_then_def or_else_def intro!: follows_rules follows_binary_val)

lemma follows_evalFuncCall:
  assumes "list_all2 (follows B) ms ms'"
  shows "follows B (evalFuncCall f ms) (evalFuncCall f ms')"
proof -
  have len: "length ms = length ms'" using assms by (rule list_all2_lengthD)
  have rest: "follows B
     (if lookup_builtin f = None then ev_fail (EUnknownFunction f)
        else (case checkArity f (length ms) of
                Some e \<Rightarrow> ev_fail (EArity e)
              | None \<Rightarrow> ev_bind (evalArgs ms) (call_builtin f)))
     (if lookup_builtin f = None then ev_fail (EUnknownFunction f)
        else (case checkArity f (length ms') of
                Some e \<Rightarrow> ev_fail (EArity e)
              | None \<Rightarrow> ev_bind (evalArgs ms') (call_builtin f)))"
    unfolding len using assms
    by (auto intro!: follows_rules follows_evalArgs follows_call_builtin split: option.splits)
  show ?thesis
  proof (cases "f = ''if'' \<and> length ms = 3")
    case True
    with assms obtain c t e c' t' e' where "ms = [c, t, e]" "ms' = [c', t', e']"
      "follows B c c'" "follows B t t'" "follows B e e'"
      by (auto simp: length_Suc_conv numeral_3_eq_3 list_all2_Cons1)
    with True show ?thesis by (auto simp: evalFuncCall_def intro!: follows_rules)
  next
    case False
    have e: "evalFuncCall f xs = (if lookup_builtin f = None then ev_fail (EUnknownFunction f)
        else (case checkArity f (length xs) of
                Some e \<Rightarrow> ev_fail (EArity e)
              | None \<Rightarrow> ev_bind (evalArgs xs) (call_builtin f)))" if "f \<noteq> ''if'' \<or> length xs \<noteq> 3" for xs
      using that by (auto simp: evalFuncCall_def split: list.splits bool.splits)
    have no: "f \<noteq> ''if'' \<or> length ms \<noteq> 3" "f \<noteq> ''if'' \<or> length ms' \<noteq> 3"
      using False len by auto
    show ?thesis unfolding e [OF no(1)] e [OF no(2)] by (rule rest)
  qed
qed

lemma list_all2_evalNodes:
  "(\<And>a. a \<in> set as \<Longrightarrow> follows B (evalNode env a) (evalNode env' a)) \<Longrightarrow>
   list_all2 (follows B) (map (evalNode env) as) (map (evalNode env') as)"
  by (induction as) auto

lemma evalNode_follows:
  assumes quiet: "\<And>w. \<not> eInterrupted env' w"
  shows "wf_node nd \<Longrightarrow>
    \<forall>(ns, path) \<in> set (walkRefsBound bd nd).
      resolve_ctx (eCtx env) ns path = resolve_ctx (eCtx env') ns path \<Longrightarrow>
    follows (set bd) (evalNode env nd) (evalNode env' nd)"
proof (induction bd nd rule: walkRefsBound.induct)
  case (8 bd f coll init params body)
  have "follows (set params \<union> set bd) (evalNode env body) (evalNode env' body)"
    using 8 by (auto simp: Un_commute)
  moreover have "follows (set bd)
     (case init of None \<Rightarrow> ev_bind (enterNode env) (\<lambda>_. ev_fail EUnknownNode) | Some i \<Rightarrow> evalNode env i)
     (case init of None \<Rightarrow> ev_bind (enterNode env') (\<lambda>_. ev_fail EUnknownNode) | Some i \<Rightarrow> evalNode env' i)"
    using 8 by (auto split: option.splits intro!: follows_rules quiet)
  ultimately show ?case
    using 8 by (auto intro!: follows_rules quiet follows_combinator)
qed (auto intro!: follows_rules quiet follows_resolvePath follows_evalBinary follows_evalFuncCall
      follows_evalArgs follows_evalPairs list_all2_evalNodes split: if_splits)

lemma eval_ast_follows:
  assumes "wf_node nd" "\<And>w. \<not> eInterrupted env' w" "budget \<le> budget'"
    and "\<forall>(ns, path) \<in> set (Refs (Some nd)).
      resolve_ctx (eCtx env) ns path = resolve_ctx (eCtx env') ns path"
    and "eval_ast env budget (Some nd) = Inr v"
  shows "eval_ast env' budget' (Some nd) = Inr v"
proof -
  have f: "follows (set []) (evalNode env nd) (evalNode env' nd)"
    using assms by (intro evalNode_follows) (auto simp: set_Refs walkRefs_def)
  obtain st1 where e: "evalNode env nd (start_eval budget) = (Inr v, st1)"
    using assms(5) by (cases "evalNode env nd (start_eval budget)") (auto simp: eval_ast_def split: if_splits)
  have "evalNode env' nd (more 0 (budget' - budget) (start_eval budget)) = (Inr v, more 0 (budget' - budget) st1)"
    using f e assms(3) unfolding follows_def by (metis diff_ge_0_iff_ge empty_subsetI list.set(1) order_refl)
  moreover have "more 0 (budget' - budget) (start_eval budget) = start_eval budget'"
    by (simp add: more_def start_eval_def)
  ultimately show ?thesis by (simp add: eval_ast_def assms(2))
qed

end
