(* ===== verification/EnvExpand.thy ===== *)
theory EnvExpand
  imports Prelude
begin

text \<open>
  \<open>expandWithDefault\<close> of \<open>pkg/dsl/ir/validate_nodes.go\<close>: the one-pass expansion of \<open>$NAME\<close>,
  \<open>${NAME}\<close> and \<open>${NAME:-default}\<close> in workflow text, with the count of source positions it visits.
  The lookup of a name is an argument (the process environment, or the engine's own names). The
  optional report of the references is not modelled.
\<close>

record expand_policy =
  bracedOnly :: bool
  keepUnresolved :: bool

definition maxEnvExpansionDepth :: nat where
  "maxEnvExpansionDepth = 32"

definition isAlnum :: "char \<Rightarrow> bool" where
  "isAlnum c \<longleftrightarrow>
     (CHR ''a'' \<le> c \<and> c \<le> CHR ''z'') \<or> (CHR ''A'' \<le> c \<and> c \<le> CHR ''Z'') \<or> (CHR ''0'' \<le> c \<and> c \<le> CHR ''9'')"

definition nameChar :: "char \<Rightarrow> bool" where
  "nameChar c \<longleftrightarrow> isAlnum c \<or> c = CHR ''_''"

text \<open>\<open>strings.Index(inner, ":-")\<close>, splitting at the first occurrence.\<close>

fun split_default :: "string \<Rightarrow> (string \<times> string) option" where
  "split_default [] = None"
| "split_default (c # cs) =
     (if c = CHR '':'' \<and> cs \<noteq> [] \<and> hd cs = CHR ''-'' then Some ([], tl cs)
      else map_option (\<lambda>(n, d). (c # n, d)) (split_default cs))"

definition resolveBracedSegment :: "(string \<Rightarrow> string) \<Rightarrow> expand_policy \<Rightarrow> string \<Rightarrow> string" where
  "resolveBracedSegment lookup pol inner =
     (case split_default inner of
        Some (name, fallback) \<Rightarrow> (let v = lookup name in if v \<noteq> [] then v else fallback)
      | None \<Rightarrow>
          (let v = lookup inner
           in if v \<noteq> [] \<or> \<not> keepUnresolved pol then v else ''${'' @ inner @ ''}''))"

text \<open>An open with no close renders as written, around what was resolved inside it.\<close>

fun close_open :: "string list \<Rightarrow> string \<Rightarrow> string" where
  "close_open [] cur = cur"
| "close_open (outer # stack) cur = close_open stack (outer @ ''${'' @ cur)"

text \<open>The pass: the enclosing segments (innermost first), the current one, the suppressed opens.\<close>

function expandLoop :: "(string \<Rightarrow> string) \<Rightarrow> expand_policy \<Rightarrow> string list \<Rightarrow> string \<Rightarrow> nat \<Rightarrow> nat \<Rightarrow>
    string \<Rightarrow> string \<times> nat" where
  "expandLoop lookup pol stack cur suppressed visited [] = (close_open stack cur, visited)"
| "expandLoop lookup pol stack cur suppressed visited (c # cs) =
     (let vis = Suc visited;
          opens = (c = CHR ''$'' \<and> cs \<noteq> [] \<and> hd cs = CHR ''{'');
          name = (if \<not> bracedOnly pol \<and> c = CHR ''$'' \<and> cs \<noteq> [] \<and> hd cs \<noteq> CHR ''{''
                  then takeWhile nameChar cs else [])
      in if 0 < suppressed then
           (if opens then expandLoop lookup pol stack (cur @ ''${'') (suppressed + 1) vis (tl cs)
            else if c = CHR ''}'' then expandLoop lookup pol stack (cur @ ''}'') (suppressed - 1) vis cs
            else expandLoop lookup pol stack (cur @ [c]) suppressed vis cs)
         else if opens then
           (if maxEnvExpansionDepth \<le> length stack then
              expandLoop lookup pol stack (cur @ ''${'') 1 vis (tl cs)
            else expandLoop lookup pol (cur # stack) [] 0 vis (tl cs))
         else if c = CHR ''}'' \<and> stack \<noteq> [] then
           expandLoop lookup pol (tl stack) (hd stack @ resolveBracedSegment lookup pol cur) 0 vis cs
         else if name \<noteq> [] then
           expandLoop lookup pol stack
             (cur @ (if lookup name \<noteq> [] \<or> \<not> keepUnresolved pol then lookup name else c # name)) 0 vis
             (drop (length name) cs)
         else expandLoop lookup pol stack (cur @ [c]) 0 vis cs)"
  by pat_completeness auto
termination
  by (relation "measure (\<lambda>(lookup, pol, stack, cur, suppressed, visited, s). length s)") auto

definition expandWithDefault :: "(string \<Rightarrow> string) \<Rightarrow> expand_policy \<Rightarrow> string \<Rightarrow> string \<times> nat" where
  "expandWithDefault lookup pol s =
     (if CHR ''$'' \<notin> set s then (s, 0) else expandLoop lookup pol [] [] 0 0 s)"

definition ExpandWithDefault :: "(string \<Rightarrow> string) \<Rightarrow> string \<Rightarrow> string" where
  "ExpandWithDefault lookup s = fst (expandWithDefault lookup \<lparr>bracedOnly = False, keepUnresolved = False\<rparr> s)"

definition ExpandBracedWithDefault :: "(string \<Rightarrow> string) \<Rightarrow> string \<Rightarrow> string" where
  "ExpandBracedWithDefault lookup s = fst (expandWithDefault lookup \<lparr>bracedOnly = True, keepUnresolved = False\<rparr> s)"

section \<open>Facts\<close>

text \<open>Every visited position is a byte the pass then leaves behind: the pass is linear.\<close>

lemma expandLoop_visited:
  "snd (expandLoop lookup pol stack cur suppressed visited s) \<le> visited + length s"
proof (induction lookup pol stack cur suppressed visited s rule: expandLoop.induct)
  case (2 lookup pol stack cur suppressed visited c cs)
  show ?case
    using 2 [OF refl refl refl] by (subst expandLoop.simps) (auto simp: Let_def intro: order_trans)
qed simp

lemma expandWithDefault_visited: "snd (expandWithDefault lookup pol s) \<le> length s"
  using expandLoop_visited [of lookup pol "[]" "[]" 0 0 s] by (simp add: expandWithDefault_def)

text \<open>A text with no open brace reference is its own braced expansion.\<close>

fun has_open :: "string \<Rightarrow> bool" where
  "has_open [] = False"
| "has_open (c # cs) = ((c = CHR ''$'' \<and> cs \<noteq> [] \<and> hd cs = CHR ''{'') \<or> has_open cs)"

lemma expandLoop_braced:
  "\<not> has_open s \<Longrightarrow> bracedOnly pol \<Longrightarrow> fst (expandLoop lookup pol [] cur 0 visited s) = cur @ s"
  by (induction s arbitrary: cur visited) (auto simp: Let_def)

lemma ExpandBraced_no_open: "\<not> has_open s \<Longrightarrow> ExpandBracedWithDefault lookup s = s"
  by (simp add: ExpandBracedWithDefault_def expandWithDefault_def expandLoop_braced)

end
