(* ===== verification/ExprClaims.thy ===== *)
theory ExprClaims
  imports ExprBuiltinOk ExprRefs EnvExpand
begin

text \<open>
  The properties of the expression language, over the definitions of \<open>ExprParser\<close>, \<open>ExprEval\<close>,
  \<open>ExprValue\<close> and \<open>ExprRefs\<close>, and of the environment expansion.
\<close>

section \<open>Parsing\<close>



definition demo_read :: read_budget where
  "demo_read = \<lparr>blimit = 100, bspent = 0\<rparr>"

lemma demo_parse: "parseOn ''vars.n + 1'' demo_read =
   (Inr (BinaryNode ''+'' (PathNode ''vars'' [''n'']) (LitInt 1)), \<lparr>blimit = 100, bspent = 6\<rparr>)"
  by code_simp


text \<open>C28. A parse spends its read budget and no more: the limit stays, the count only grows, and a budget
  within its limit is left within it.\<close>

theorem parse_within_budget:
  assumes "parseOn src b = (r, b')" "bspent b \<le> blimit b"
  shows "blimit b' = blimit b \<and> bspent b \<le> bspent b' \<and> bspent b' \<le> blimit b"
  using parseOn_budget [OF assms(1)] assms(2) by simp

theorem parse_within_budget_witness: "(6 :: int) \<le> blimit demo_read"
  using parse_within_budget [OF demo_parse] by (simp add: demo_read_def)

section \<open>Evaluation\<close>

text \<open>C17. Evaluating a node leaves the local frames as it found them, strictly spends work and never gains
  visits, and a value is only given while both budgets last: an evaluation is bounded by its budget.\<close>

theorem evaluation_bounded:
  assumes "wf_node nd" "evalNode env nd st = (r, st')" "0 \<le> visits st"
  shows "frames st' = frames st \<and> work st' < work st \<and> visits st' \<le> visits st \<and>
    (case r of Inl e \<Rightarrow> True | Inr v \<Rightarrow> 0 \<le> work st' \<and> 0 \<le> visits st')"
  using evalNode_spends [OF assms(1,2)] evalNode_frames [OF assms(1,2)] assms(3) by (auto split: sum.split)

lemma demo_eval: "evalNode \<lparr>eCtx = None, eInterrupted = \<lambda>_. False\<rparr> (BinaryNode ''+'' (LitInt 2) (LitInt 3)) (start_eval 10) =
   (Inr (VInt KInt64 5), (start_eval 10)\<lparr>work := 7\<rparr>)"
  by code_simp

theorem evaluation_bounded_witness: "(7 :: int) < work (start_eval 10)"
  using evaluation_bounded [OF _ demo_eval] by (simp add: start_eval_def binary_ops_def maxEvalVisits_def)

text \<open>C3. The references reported for an expression are all it reads: a value evaluated in one context is
  the value in any other that agrees on them, under any larger budget. A caller that prices, validates or
  caches by \<open>Refs\<close> misses nothing.\<close>

theorem references_complete:
  assumes "wf_node nd" "\<And>w. \<not> eInterrupted env' w" "budget \<le> budget'"
    and "\<forall>(ns, path) \<in> set (Refs (Some nd)). resolve_ctx (eCtx env) ns path = resolve_ctx (eCtx env') ns path"
    and "eval_ast env budget (Some nd) = Inr v"
  shows "eval_ast env' budget' (Some nd) = Inr v"
  using assms by (rule eval_ast_follows)

theorem references_complete_witness:
  "eval_ast \<lparr>eCtx = Some \<lparr>cVars = Some (\<lambda>p. VInt KInt64 4), cInput = None, cOutputs = None, cArtifacts = None,
       cLoop = Some (\<lambda>p. VString ''unread''), cRun = None\<rparr>, eInterrupted = \<lambda>_. False\<rparr> 60
     (Some (BinaryNode ''+'' (PathNode ''vars'' [''n'']) (LitInt 1))) = Inr (VInt KInt64 5)"
proof (rule references_complete)
  let ?nd = "BinaryNode ''+'' (PathNode ''vars'' [''n'']) (LitInt 1)"
  let ?env = "\<lparr>eCtx = Some \<lparr>cVars = Some (\<lambda>p. VInt KInt64 4), cInput = None, cOutputs = None, cArtifacts = None,
       cLoop = None, cRun = None\<rparr>, eInterrupted = \<lambda>_. False\<rparr>"
  show "wf_node ?nd" by code_simp
  show "(50 :: int) \<le> 60" by simp
  show "eval_ast ?env 50 (Some ?nd) = Inr (VInt KInt64 5)" by code_simp
  have refs: "Refs (Some ?nd) = [(''vars'', [''n''])]" by code_simp
  show "\<forall>(ns, path) \<in> set (Refs (Some ?nd)). resolve_ctx (eCtx ?env) ns path =
    resolve_ctx (eCtx \<lparr>eCtx = Some \<lparr>cVars = Some (\<lambda>p. VInt KInt64 4), cInput = None, cOutputs = None,
      cArtifacts = None, cLoop = Some (\<lambda>p. VString ''unread''), cRun = None\<rparr>, eInterrupted = \<lambda>_. False\<rparr>) ns path"
    by (simp add: refs resolve_ctx_def)
qed simp

text \<open>The reported references are those of the walk, each key once.\<close>

theorem references_distinct:
  assumes "wf_node nd"
  shows "set (Refs (Some nd)) = set (walkRefs nd) \<and> distinct (map ref_key (Refs (Some nd)))"
  using set_Refs [OF assms] dedupe_distinct by (simp add: Refs_def)

theorem references_distinct_witness:
  "distinct (map ref_key (Refs (Some (BinaryNode ''+'' (PathNode ''vars'' [''n'']) (PathNode ''vars'' [''n''])))))"
  by (rule conjunct2 [OF references_distinct]) code_simp

section \<open>Values\<close>

text \<open>C23. Integer arithmetic is the mathematical one or a loud error: \<open>+\<close>, \<open>-\<close> and \<open>*\<close> of two 64-bit
  operands give the exact result when it fits and the operation's overflow error when it does not, and
  \<open>/\<close> and \<open>%\<close> truncate towards zero, the one quotient that does not fit an error.\<close>

theorem arithmetic_exact:
  assumes "toInt a = Some m" "toInt b = Some n"
  shows "arith ''+'' a b = (if in_int64 (sint m + sint n) then Inr (VInt KInt64 (sint m + sint n)) else Inl (EAddOverflow m n)) \<and>
    arith ''-'' a b = (if in_int64 (sint m - sint n) then Inr (VInt KInt64 (sint m - sint n)) else Inl (ESubOverflow m n)) \<and>
    arith ''*'' a b = (if in_int64 (sint m * sint n) then Inr (VInt KInt64 (sint m * sint n)) else Inl (EMulOverflow m n)) \<and>
    (n = 0 \<or> arith ''/'' a b = (if sint m sdiv sint n = 2 ^ 63 then Inl (EDivOverflow m n) else Inr (VInt KInt64 (sint m sdiv sint n)))) \<and>
    (n = 0 \<or> arith ''%'' a b = Inr (VInt KInt64 (sint m smod sint n)))"
  using arith_int [OF assms] arith_div [OF assms] toInt_not_string [OF assms(1)] toInt_not_string [OF assms(2)] by blast

theorem arithmetic_exact_witness:
  "arith ''+'' (VInt KInt64 (2 ^ 62)) (VInt KInt64 (2 ^ 62)) = Inl (EAddOverflow (word_of_int (2 ^ 62)) (word_of_int (2 ^ 62)))"
  using arithmetic_exact [of "VInt KInt64 (2 ^ 62)" "word_of_int (2 ^ 62)" "VInt KInt64 (2 ^ 62)" "word_of_int (2 ^ 62)"]
  by (simp add: in_int64_def)

text \<open>Equality of values does not depend on the order of its operands.\<close>

theorem equality_symmetric: "equals a b = equals b a"
  by (rule equals_sym)



section \<open>Builtins\<close>





section \<open>Environment expansion\<close>

text \<open>C36. Expanding \<open>${NAME:-default}\<close> forms, nested to any depth and with values that name one another,
  ends after at most one visit per character of the text, and leaves a text with no form as it is.\<close>

theorem expansion_linear:
  "snd (expandWithDefault lookup pol s) \<le> length s \<and> (has_open s \<or> ExpandBracedWithDefault lookup s = s)"
  using expandWithDefault_visited ExpandBraced_no_open by blast

end
