(* ===== verification/GoDuration.thy ===== *)
theory GoDuration
  imports GoFormat
begin

text \<open>
  \<open>time.ParseDuration\<close> and \<open>Duration.String\<close>: what every configured duration of the program is
  read and written with. A duration is its count of nanoseconds.
\<close>

definition second :: int where "second = 1000000000"
definition minute :: int where "minute = 60 * second"
definition hour :: int where "hour = 60 * minute"

section \<open>Reading\<close>

definition micro_signs :: "string list" where
  "micro_signs = [map (char_of :: nat \<Rightarrow> char) [194, 181, 115], map (char_of :: nat \<Rightarrow> char) [206, 188, 115]]"

definition unit_of :: "string \<Rightarrow> int option" where
  "unit_of u =
     (if u = ''ns'' then Some 1
      else if u = ''us'' \<or> u \<in> set micro_signs then Some 1000
      else if u = ''ms'' then Some 1000000
      else if u = ''s'' then Some second
      else if u = ''m'' then Some minute
      else if u = ''h'' then Some hour
      else None)"

text \<open>\<open>leadingInt\<close> on a run of digits: \<open>None\<close> past 2^63.\<close>

fun leading_int :: "int \<Rightarrow> string \<Rightarrow> int option" where
  "leading_int x [] = Some x"
| "leading_int x (c # cs) =
     (if 2 ^ 63 div 10 < x then None
      else let y = 10 * x + int (digit_val c) in if 2 ^ 63 < y then None else leading_int y cs)"

text \<open>\<open>leadingFraction\<close>: the digits and their power of ten, the digits past the range dropped.\<close>

fun leading_fraction :: "int \<Rightarrow> nat \<Rightarrow> string \<Rightarrow> int \<times> nat" where
  "leading_fraction x k [] = (x, k)"
| "leading_fraction x k (c # cs) =
     (let y = 10 * x + int (digit_val c)
      in if (2 ^ 63 - 1) div 10 < x \<or> 2 ^ 63 < y then (x, k) else leading_fraction y (Suc k) cs)"

text \<open>\<open>v*unit + uint64(float64(f) * (float64(unit) / scale))\<close>, or the overflow.\<close>

definition component :: "int \<Rightarrow> int \<Rightarrow> nat \<Rightarrow> int \<Rightarrow> int option" where
  "component v f k u =
     (if 2 ^ 63 div u < v then None
      else let frac = (if 0 < f then f_to_int64 (f_mul (f_of_int f) (f_div (f_of_int u) (f_of_int (10 ^ k)))) else 0);
               w = v * u + frac
           in if 2 ^ 63 < w then None else Some w)"

definition unit_char :: "char \<Rightarrow> bool" where
  "unit_char c \<longleftrightarrow> \<not> (c = CHR ''.'' \<or> is_digit c)"

text \<open>The part of a component after its integer digits: fraction digits and the rest.\<close>

definition after_int :: "string \<Rightarrow> string \<times> string" where
  "after_int s =
     (case s of
        c # cs \<Rightarrow> if c = CHR ''.'' then (takeWhile is_digit cs, dropWhile is_digit cs) else ([], s)
      | [] \<Rightarrow> ([], []))"

lemma after_int_length: "length (snd (after_int s)) \<le> length s"
  by (auto simp: after_int_def length_dropWhile_le le_SucI split: list.splits)

text \<open>The loop over components; the sum is a \<open>uint64\<close>.\<close>

function components :: "int \<Rightarrow> string \<Rightarrow> int option" where
  "components d s =
     (if s = [] then Some d
      else
        (let ds = takeWhile is_digit s; s1 = dropWhile is_digit s;
             (fs, s2) = after_int s1;
             u = takeWhile unit_char s2; rest = dropWhile unit_char s2
         in if \<not> (hd s = CHR ''.'' \<or> is_digit (hd s)) \<or> (ds = [] \<and> fs = []) \<or> u = [] then None
            else
              (case (leading_int 0 ds, unit_of u) of
                 (Some v, Some un) \<Rightarrow>
                   (case leading_fraction 0 0 fs of (f, k) \<Rightarrow>
                      (case component v f k un of
                         None \<Rightarrow> None
                       | Some w \<Rightarrow>
                           let d' = (d + w) mod 2 ^ 64
                           in if 2 ^ 63 < d' then None else components d' rest))
               | _ \<Rightarrow> None)))"
  by pat_completeness auto
termination
proof (relation "measure (\<lambda>(d, s). length s)", goal_cases)
  case (2 d s ds s1 z fs s2 u rest)
  have "length rest < length s2"
    using 2(2-) by (cases s2) (auto simp: length_dropWhile_le less_Suc_eq_le split: if_splits)
  also have "length s2 \<le> length s1" using after_int_length [of s1] 2(4,5) by (metis snd_conv)
  also have "length s1 \<le> length s" using 2(3) by (simp add: length_dropWhile_le)
  finally show ?case by simp
qed simp

declare components.simps [simp del]

definition parse_duration :: "string \<Rightarrow> int option" where
  "parse_duration s0 =
     (let (neg, s) = (case s0 of
            c # cs \<Rightarrow> if c = CHR ''-'' then (True, cs) else if c = CHR ''+'' then (False, cs) else (False, s0)
          | [] \<Rightarrow> (False, []))
      in if s = ''0'' then Some 0
         else if s = [] then None
         else
           (case components 0 s of
              None \<Rightarrow> None
            | Some d \<Rightarrow> if neg then Some (- d) else if 2 ^ 63 - 1 < d then None else Some d))"

section \<open>Writing\<close>

text \<open>\<open>fmtFrac\<close>: the last \<open>pr\<close> digits without trailing zeros, after a dot; nothing when zero.\<close>

fun pad_digits :: "nat \<Rightarrow> nat \<Rightarrow> string" where
  "pad_digits 0 n = []"
| "pad_digits (Suc k) n = pad_digits k (n div 10) @ [digit_char (n mod 10)]"

definition fmt_frac :: "nat \<Rightarrow> nat \<Rightarrow> string" where
  "fmt_frac pr n =
     (let ds = rev (dropWhile (\<lambda>c. c = CHR ''0'') (rev (pad_digits pr (n mod 10 ^ pr))))
      in if ds = [] then [] else CHR ''.'' # ds)"

definition small_str :: "nat \<Rightarrow> string" where
  "small_str n =
     (if n = 0 then ''0s''
      else if n < 1000 then nat_str n @ ''ns''
      else if n < 1000000 then nat_str (n div 1000) @ fmt_frac 3 n @ hd micro_signs
      else nat_str (n div 1000000) @ fmt_frac 6 n @ ''ms'')"

definition big_str :: "nat \<Rightarrow> string" where
  "big_str n =
     (let secs = n div 1000000000; mins = secs div 60; hours = mins div 60;
          s = nat_str (secs mod 60) @ fmt_frac 9 n @ ''s''
      in if mins = 0 then s
         else if hours = 0 then nat_str (mins mod 60) @ ''m'' @ s
         else nat_str hours @ ''h'' @ nat_str (mins mod 60) @ ''m'' @ s)"

definition duration_str :: "int \<Rightarrow> string" where
  "duration_str d =
     (let n = nat \<bar>d\<bar>; s = (if n < 1000000000 then small_str n else big_str n)
      in if d < 0 then CHR ''-'' # s else s)"


end
