(* ===== verification/RunBudget.thy ===== *)
theory RunBudget
  imports GoFloat GoDuration EnvExpand
begin

text \<open>
  The budget of a run: \<open>pkg/runtime/budget.go\<close>, \<open>budget_exit_grace.go\<close> and the ceiling of
  \<open>pkg/dsl/ir/ir.go\<close>. A \<open>SharedBudget\<close> is a record; each locked method is one definition from
  the budget before to the budget after, the clock an argument. The mutex makes each method
  atomic, so an interleaving of branches is a sequence of these steps. Counters are integers: a
  64-bit wrap would take 2^63 tokens. Costs are IEEE doubles.
\<close>

section \<open>Declared budgets and ceilings\<close>

record BudgetCeiling =
  clCost :: f64
  clTokens :: int
  clIterations :: int
  clDuration :: int
  clBranches :: int

definition no_ceiling :: BudgetCeiling where
  "no_ceiling = \<lparr>clCost = f_zero, clTokens = 0, clIterations = 0, clDuration = 0, clBranches = 0\<rparr>"

text \<open>\<open>c == (ir.BudgetCeiling{})\<close>: Go's comparison, so the cost compares as a float.\<close>

definition ceiling_is_zero :: "BudgetCeiling \<Rightarrow> bool" where
  "ceiling_is_zero c \<longleftrightarrow> f_eq (clCost c) f_zero \<and> clTokens c = 0 \<and> clIterations c = 0 \<and>
     clDuration c = 0 \<and> clBranches c = 0"

record Budget =
  bMaxParallelBranches :: int
  bMaxDuration :: string
  bMaxCostUSD :: f64
  bMaxTokens :: int
  bWarnTokens :: int
  bMaxIterations :: int
  bOnExceeded :: string
  bCapImposed :: bool
  bCeiling :: BudgetCeiling

definition clamp_int :: "int \<Rightarrow> int \<Rightarrow> int" where
  "clamp_int v mx = (if 0 < mx \<and> (v \<le> 0 \<or> mx < v) then mx else v)"

definition clamp_f :: "f64 \<Rightarrow> f64 \<Rightarrow> f64" where
  "clamp_f v mx = (if f_lt f_zero mx \<and> (f_le v f_zero \<or> f_lt mx v) then mx else v)"

text \<open>A duration as configured: \<open>time.ParseDuration(ExpandEnvWithDefault(s))\<close>.\<close>

definition read_duration :: "(string \<Rightarrow> string) \<Rightarrow> string \<Rightarrow> int option" where
  "read_duration env s = parse_duration (ExpandWithDefault env s)"

text \<open>
  \<open>(*Budget).ClampToCeiling\<close>: the tightest external limits, and the budget clamped to them. The
  lookup \<open>env\<close> reads what workflow text may read, \<open>osenv\<close> the process environment. The returned flag
  (did a cap change, for a log line) is left out.
\<close>

definition tighten_ceiling :: "(string \<Rightarrow> string) \<Rightarrow> BudgetCeiling \<Rightarrow> Budget \<Rightarrow> BudgetCeiling" where
  "tighten_ceiling osenv c0 outer =
     \<lparr>clCost = clamp_f (clCost c0) (bMaxCostUSD outer),
      clTokens = clamp_int (clTokens c0) (bMaxTokens outer),
      clIterations = clamp_int (clIterations c0) (bMaxIterations outer),
      clDuration =
        (case parse_duration (ExpandWithDefault osenv (bMaxDuration outer)) of
           Some cd \<Rightarrow> if 0 < cd \<and> (clDuration c0 \<le> 0 \<or> cd < clDuration c0) then cd else clDuration c0
         | None \<Rightarrow> clDuration c0),
      clBranches = clamp_int (clBranches c0) (bMaxParallelBranches outer)\<rparr>"

definition clamped_duration :: "(string \<Rightarrow> string) \<Rightarrow> (string \<Rightarrow> string) \<Rightarrow> string \<Rightarrow> int \<Rightarrow> string \<Rightarrow> string" where
  "clamped_duration env osenv raw cd limraw =
     (let expanded = ExpandWithDefault env raw; limdur = ExpandWithDefault osenv limraw
      in case parse_duration expanded of
           Some vd \<Rightarrow> if vd \<le> 0 \<or> cd < vd
             then (if parse_duration limdur = Some cd then limdur else duration_str cd) else expanded
         | None \<Rightarrow> if parse_duration limdur = Some cd then limdur else duration_str cd)"

definition ClampToCeiling :: "(string \<Rightarrow> string) \<Rightarrow> (string \<Rightarrow> string) \<Rightarrow> Budget \<Rightarrow> Budget \<Rightarrow> Budget" where
  "ClampToCeiling env osenv b outer =
     (let c = tighten_ceiling osenv (bCeiling b) outer
      in b\<lparr>bCeiling := c,
           bCapImposed := bCapImposed b \<or> \<not> ceiling_is_zero c,
           bMaxIterations := clamp_int (bMaxIterations b) (clIterations c),
           bMaxTokens := clamp_int (bMaxTokens b) (clTokens c),
           bMaxParallelBranches := clamp_int (bMaxParallelBranches b) (clBranches c),
           bMaxCostUSD := clamp_f (bMaxCostUSD b) (clCost c),
           bMaxDuration :=
             (if 0 < clDuration c
              then clamped_duration env osenv (bMaxDuration b) (clDuration c) (bMaxDuration outer)
              else bMaxDuration b)\<rparr>)"

section \<open>The shared budget\<close>

text \<open>
  \<open>budgetCheckResult\<close>; the detail text of the two advisory dimensions is kept as the counts it
  quotes (nodes and tokens, or calls).
\<close>

record check_result =
  crExceeded :: bool
  crHardLimited :: bool
  crWarning :: bool
  crAdvisory :: bool
  crDimension :: string
  crUsed :: f64
  crLimit :: f64
  crDetail :: "int list"

definition plain_check :: "string \<Rightarrow> f64 \<Rightarrow> f64 \<Rightarrow> check_result" where
  "plain_check ax used limit =
     \<lparr>crExceeded = False, crHardLimited = False, crWarning = False, crAdvisory = False,
      crDimension = ax, crUsed = used, crLimit = limit, crDetail = []\<rparr>"

record SharedBudget =
  maxTokens :: int
  maxCostUSD :: f64
  maxIterations :: int
  maxDuration :: int
  warnTokens :: int
  capImposed :: bool
  ceil :: BudgetCeiling
  tokensUsed :: int
  costUsed :: f64
  iterationsUsed :: int
  startedAt :: int
  warned :: "string list"      \<comment> \<open>\<open>warningsEmitted\<close>\<close>
  everRaised :: bool
  pending :: "check_result option"   \<comment> \<open>\<open>exceeded\<close>\<close>
  unpricedTokens :: int
  unpricedNodes :: int
  unreportedCalls :: int

text \<open>\<open>newSharedBudget\<close> at the instant \<open>now\<close>; \<open>None\<close> is the nil tracker of an unlimited run.\<close>

definition newSharedBudget :: "(string \<Rightarrow> string) \<Rightarrow> int \<Rightarrow> Budget option \<Rightarrow> SharedBudget option" where
  "newSharedBudget env now ob =
     (case ob of
        None \<Rightarrow> None
      | Some b \<Rightarrow>
          (let maxDur = (if bMaxDuration b \<noteq> [] then
                           (case read_duration env (bMaxDuration b) of Some d \<Rightarrow> d | None \<Rightarrow> 0) else 0)
           in if bMaxTokens b = 0 \<and> f_eq (bMaxCostUSD b) f_zero \<and> bMaxIterations b = 0 \<and> maxDur = 0 \<and>
                 bWarnTokens b = 0
              then None
              else Some
                \<lparr>maxTokens = bMaxTokens b, maxCostUSD = bMaxCostUSD b, maxIterations = bMaxIterations b,
                 maxDuration = maxDur, warnTokens = bWarnTokens b, capImposed = bCapImposed b,
                 ceil = (if bCapImposed b \<and> ceiling_is_zero (bCeiling b) then
                           \<lparr>clCost = bMaxCostUSD b, clTokens = bMaxTokens b, clIterations = bMaxIterations b,
                            clDuration = maxDur, clBranches = 0\<rparr>
                         else bCeiling b),
                 tokensUsed = 0, costUsed = f_zero, iterationsUsed = 0, startedAt = now, warned = [],
                 everRaised = False, pending = None, unpricedTokens = 0, unpricedNodes = 0,
                 unreportedCalls = 0\<rparr>))"

definition elapsed :: "int \<Rightarrow> SharedBudget \<Rightarrow> int" where
  "elapsed now b = now - startedAt b"

text \<open>The four enforced axes in the order every check reads them: used and limit.\<close>

definition axis_list :: "int \<Rightarrow> SharedBudget \<Rightarrow> (string \<times> f64 \<times> f64) list" where
  "axis_list now b =
     [(''iterations'', f_of_int (iterationsUsed b), f_of_int (maxIterations b)),
      (''tokens'', f_of_int (tokensUsed b), f_of_int (maxTokens b)),
      (''cost_usd'', costUsed b, maxCostUSD b),
      (''duration'', f_of_int (elapsed now b), f_of_int (maxDuration b))]"

definition f_one :: f64 where
  "f_one = f_of_int 1"

definition budgetWarningThreshold :: f64 where
  "budgetWarningThreshold = f_of_rat (8 / 10)"

definition budgetHardThreshold :: f64 where
  "budgetHardThreshold = f_of_rat (9 / 10)"

text \<open>The \<open>check\<close> closure of \<open>checkLocked\<close> on one axis, with the warnings already emitted.\<close>

definition check_axis :: "string list \<Rightarrow> string \<times> f64 \<times> f64 \<Rightarrow> check_result list \<times> string list" where
  "check_axis w axis =
     (case axis of (ax, used, limit) \<Rightarrow>
        if f_le limit f_zero then ([], w)
        else
          (let ratio = f_div used limit in
           if f_le f_one ratio then ([(plain_check ax used limit)\<lparr>crExceeded := True\<rparr>], w)
           else if f_le budgetHardThreshold ratio then ([(plain_check ax used limit)\<lparr>crHardLimited := True\<rparr>], w)
           else if f_le budgetWarningThreshold ratio \<and> ax \<notin> set w then
             ([(plain_check ax used limit)\<lparr>crWarning := True\<rparr>], ax # w)
           else ([], w)))"

fun check_axes :: "string list \<Rightarrow> (string \<times> f64 \<times> f64) list \<Rightarrow> check_result list \<times> string list" where
  "check_axes w [] = ([], w)"
| "check_axes w (a # as) =
     (case check_axis w a of (rs, w1) \<Rightarrow> (case check_axes w1 as of (rs2, w2) \<Rightarrow> (rs @ rs2, w2)))"

text \<open>The advisory token threshold: once, on the tokens axis.\<close>

definition warn_tokens_check :: "SharedBudget \<Rightarrow> string list \<Rightarrow> check_result list \<times> string list" where
  "warn_tokens_check b w =
     (if 0 < warnTokens b \<and> warnTokens b \<le> tokensUsed b \<and> ''tokens'' \<notin> set w then
        ([(plain_check ''tokens'' (f_of_int (tokensUsed b)) (f_of_int (warnTokens b)))
            \<lparr>crWarning := True, crAdvisory := True\<rparr>], ''tokens'' # w)
      else ([], w))"

definition checkLocked :: "int \<Rightarrow> SharedBudget \<Rightarrow> check_result list \<times> SharedBudget" where
  "checkLocked now b =
     (case check_axes (warned b) (axis_list now b) of (rs, w) \<Rightarrow>
        (case warn_tokens_check b w of (rs2, w2) \<Rightarrow> (rs @ rs2, b\<lparr>warned := w2\<rparr>)))"

text \<open>\<open>(*SharedBudget).Check\<close> is \<open>checkLocked\<close> under the lock.\<close>

definition Check :: "int \<Rightarrow> SharedBudget \<Rightarrow> check_result list \<times> SharedBudget" where
  "Check now b = checkLocked now b"

text \<open>The first axis whose usage is at or past its cap.\<close>

definition over_axis :: "string \<times> f64 \<times> f64 \<Rightarrow> check_result option" where
  "over_axis axis =
     (case axis of (ax, used, limit) \<Rightarrow>
        if f_le limit f_zero \<or> f_lt used limit then None
        else Some ((plain_check ax used limit)\<lparr>crExceeded := True\<rparr>))"

fun first_over :: "(string \<times> f64 \<times> f64) list \<Rightarrow> check_result option" where
  "first_over [] = None"
| "first_over (a # as) = (case over_axis a of Some r \<Rightarrow> Some r | None \<Rightarrow> first_over as)"

definition liveOverrunLocked :: "int \<Rightarrow> SharedBudget \<Rightarrow> check_result option" where
  "liveOverrunLocked now b = first_over (axis_list now b)"

definition bounded_int :: "int \<Rightarrow> int \<Rightarrow> int" where
  "bounded_int limit cl = (if 0 < cl \<and> cl < limit then cl else limit)"

definition bounded_f :: "f64 \<Rightarrow> f64 \<Rightarrow> f64" where
  "bounded_f limit cl = (if f_lt f_zero cl \<and> f_lt cl limit then cl else limit)"

section \<open>Raises\<close>

record BudgetOverrides =
  oMaxCostUSD :: f64
  oMaxTokens :: int
  oMaxDuration :: string
  oMaxIterations :: int
  oMaxParallelBranches :: int
  oUnlimitedWorkflow :: bool
  oCapImposed :: bool
  oDonorMaxCostUSD :: f64

definition no_overrides :: BudgetOverrides where
  "no_overrides = \<lparr>oMaxCostUSD = f_zero, oMaxTokens = 0, oMaxDuration = [], oMaxIterations = 0,
     oMaxParallelBranches = 0, oUnlimitedWorkflow = False, oCapImposed = False, oDonorMaxCostUSD = f_zero\<rparr>"

definition unwarn :: "string list \<Rightarrow> SharedBudget \<Rightarrow> SharedBudget" where
  "unwarn axs b = b\<lparr>warned := filter (\<lambda>d. d \<notin> set axs) (warned b)\<rparr>"

text \<open>The four clauses of \<open>RaiseCaps\<close>: the budget after the clause and whether it raised.\<close>

definition raise_cost :: "f64 \<Rightarrow> SharedBudget \<Rightarrow> SharedBudget \<times> bool" where
  "raise_cost ask b =
     (if f_lt f_zero (maxCostUSD b) \<and> f_lt (maxCostUSD b) ask then
        (unwarn [''cost_usd'', ''cost_usd_unpriced'', ''usage_unreported''] (b\<lparr>maxCostUSD := ask\<rparr>), True)
      else (b, False))"

definition raise_tokens :: "int \<Rightarrow> SharedBudget \<Rightarrow> SharedBudget \<times> bool" where
  "raise_tokens ask b =
     (if 0 < maxTokens b \<and> maxTokens b < ask then
        (unwarn [''tokens'', ''usage_unreported''] (b\<lparr>maxTokens := ask\<rparr>), True)
      else (b, False))"

definition raise_iterations :: "int \<Rightarrow> SharedBudget \<Rightarrow> SharedBudget \<times> bool" where
  "raise_iterations ask b =
     (if 0 < maxIterations b \<and> maxIterations b < ask then
        (unwarn [''iterations''] (b\<lparr>maxIterations := ask\<rparr>), True)
      else (b, False))"

definition raise_duration :: "(string \<Rightarrow> string) \<Rightarrow> string \<Rightarrow> SharedBudget \<Rightarrow> SharedBudget \<times> bool" where
  "raise_duration env ask b =
     (if 0 < maxDuration b \<and> ask \<noteq> [] then
        (case read_duration env ask of
           Some d \<Rightarrow>
             if maxDuration b < bounded_int d (clDuration (ceil b)) then
               (unwarn [''duration''] (b\<lparr>maxDuration := bounded_int d (clDuration (ceil b))\<rparr>), True)
             else (b, False)
         | None \<Rightarrow> (b, False))
      else (b, False))"

definition capsLocked :: "SharedBudget \<Rightarrow> BudgetOverrides" where
  "capsLocked b = no_overrides
     \<lparr>oMaxCostUSD := maxCostUSD b, oMaxTokens := maxTokens b, oMaxIterations := maxIterations b,
      oCapImposed := capImposed b,
      oMaxDuration := (if 0 < maxDuration b then duration_str (maxDuration b) else [])\<rparr>"

definition raise_axes :: "(string \<Rightarrow> string) \<Rightarrow> BudgetOverrides \<Rightarrow> SharedBudget \<Rightarrow> SharedBudget \<times> bool" where
  "raise_axes env ask b0 =
     (let (b1, r1) = raise_cost (bounded_f (oMaxCostUSD ask) (clCost (ceil b0))) b0;
          (b2, r2) = raise_tokens (bounded_int (oMaxTokens ask) (clTokens (ceil b0))) b1;
          (b3, r3) = raise_iterations (bounded_int (oMaxIterations ask) (clIterations (ceil b0))) b2;
          (b4, r4) = raise_duration env (oMaxDuration ask) b3
      in (b4, r1 \<or> r2 \<or> r3 \<or> r4))"

text \<open>\<open>RaiseCaps\<close>: a raise re-derives a pending overrun against the caps as they now stand.\<close>

definition RaiseCaps :: "(string \<Rightarrow> string) \<Rightarrow> int \<Rightarrow> BudgetOverrides \<Rightarrow> SharedBudget \<Rightarrow>
    SharedBudget \<times> BudgetOverrides \<times> bool" where
  "RaiseCaps env now ask b0 =
     (case raise_axes env ask b0 of
        (b, raised) \<Rightarrow>
          (let b' = (if raised then
                       b\<lparr>everRaised := True,
                         pending := (if pending b \<noteq> None then liveOverrunLocked now b else None)\<rparr>
                     else b)
           in (b', capsLocked b', raised)))"

section \<open>Recording\<close>

record nodeSpend =
  spTokens :: int
  spCostUSD :: f64
  spUnreported :: int

text \<open>The advisory dimension of spend no price was found for, once.\<close>

definition unpricedWarningLocked :: "SharedBudget \<Rightarrow> check_result list \<times> SharedBudget" where
  "unpricedWarningLocked b =
     (if f_le (maxCostUSD b) f_zero \<or> unpricedNodes b = 0 \<or> ''cost_usd_unpriced'' \<in> set (warned b) then ([], b)
      else ([(plain_check ''cost_usd_unpriced'' f_zero f_zero)
               \<lparr>crWarning := True, crAdvisory := True, crDetail := [unpricedNodes b, unpricedTokens b]\<rparr>],
            b\<lparr>warned := ''cost_usd_unpriced'' # warned b\<rparr>))"

definition unreportedWarningLocked :: "SharedBudget \<Rightarrow> check_result list \<times> SharedBudget" where
  "unreportedWarningLocked b =
     (if (maxTokens b \<le> 0 \<and> f_le (maxCostUSD b) f_zero) \<or> unreportedCalls b = 0 \<or>
         ''usage_unreported'' \<in> set (warned b) then ([], b)
      else ([(plain_check ''usage_unreported'' f_zero f_zero)
               \<lparr>crWarning := True, crAdvisory := True, crDetail := [unreportedCalls b]\<rparr>],
            b\<lparr>warned := ''usage_unreported'' # warned b\<rparr>))"

definition book_spend :: "nodeSpend \<Rightarrow> bool \<Rightarrow> SharedBudget \<Rightarrow> SharedBudget" where
  "book_spend sp countIteration b =
     (let b1 = b\<lparr>unreportedCalls := unreportedCalls b + spUnreported sp,
                 iterationsUsed := (if countIteration then iterationsUsed b + 1 else iterationsUsed b),
                 tokensUsed := tokensUsed b + spTokens sp\<rparr>
      in if f_lt f_zero (spCostUSD sp) then b1\<lparr>costUsed := f_add (costUsed b) (spCostUSD sp)\<rparr>
         else if 0 < spTokens sp then
           b1\<lparr>unpricedTokens := unpricedTokens b + spTokens sp, unpricedNodes := unpricedNodes b + 1\<rparr>
         else b1)"

definition recordUsage :: "int \<Rightarrow> nodeSpend \<Rightarrow> bool \<Rightarrow> SharedBudget \<Rightarrow> check_result list \<times> SharedBudget" where
  "recordUsage now sp countIteration b =
     (case checkLocked now (book_spend sp countIteration b) of (rs, b1) \<Rightarrow>
        (case unpricedWarningLocked b1 of (rs2, b2) \<Rightarrow>
           (case unreportedWarningLocked b2 of (rs3, b3) \<Rightarrow> (rs @ rs2 @ rs3, b3))))"

definition noteUnreported :: "int \<Rightarrow> SharedBudget \<Rightarrow> check_result list \<times> SharedBudget" where
  "noteUnreported n b =
     (if n \<le> 0 then ([], b) else unreportedWarningLocked (b\<lparr>unreportedCalls := unreportedCalls b + n\<rparr>))"

definition noteExceeded :: "check_result option \<Rightarrow> SharedBudget \<Rightarrow> SharedBudget" where
  "noteExceeded exc b =
     (if exc = None then b else if pending b = None then b\<lparr>pending := exc\<rparr> else b)"

definition takeExceeded :: "SharedBudget \<Rightarrow> check_result option \<times> SharedBudget" where
  "takeExceeded b = (pending b, b\<lparr>pending := None\<rparr>)"

section \<open>Carrying consumption across a pause\<close>

record consumption =
  coTokens :: int
  coCost :: f64
  coIterations :: int
  coElapsed :: int
  coUnpricedTokens :: int
  coUnpricedNodes :: int
  coUnreported :: int

definition Snapshot :: "int \<Rightarrow> SharedBudget \<Rightarrow> consumption" where
  "Snapshot now b =
     \<lparr>coTokens = tokensUsed b, coCost = costUsed b, coIterations = iterationsUsed b,
      coElapsed = elapsed now b, coUnpricedTokens = unpricedTokens b,
      coUnpricedNodes = unpricedNodes b, coUnreported = unreportedCalls b\<rparr>"

definition Restore :: "int \<Rightarrow> consumption \<Rightarrow> SharedBudget \<Rightarrow> SharedBudget" where
  "Restore now c b =
     b\<lparr>tokensUsed := coTokens c, costUsed := coCost c, iterationsUsed := coIterations c,
       unpricedTokens := coUnpricedTokens c, unpricedNodes := coUnpricedNodes c,
       unreportedCalls := coUnreported c,
       startedAt := (if 0 < coElapsed c then now - coElapsed c else startedAt b)\<rparr>"

section \<open>Readings\<close>

definition RemainingDuration :: "int \<Rightarrow> SharedBudget \<Rightarrow> int \<times> bool" where
  "RemainingDuration now b =
     (if maxDuration b \<le> 0 then (0, False)
      else let left = maxDuration b - elapsed now b in (if left < 0 then 0 else left, True))"

definition DurationStatus :: "int \<Rightarrow> SharedBudget \<Rightarrow> f64 \<times> f64 \<times> bool" where
  "DurationStatus now b =
     (if maxDuration b \<le> 0 then (f_zero, f_zero, False)
      else (f_of_int (elapsed now b), f_of_int (maxDuration b), True))"

record BudgetStatus =
  stElapsed :: int
  stCostUSD :: f64
  stTokens :: int
  stIterations :: int
  stMaxDuration :: int
  stMaxCostUSD :: f64
  stMaxTokens :: int
  stMaxIterations :: int

definition Status :: "int \<Rightarrow> SharedBudget \<Rightarrow> BudgetStatus" where
  "Status now b =
     \<lparr>stElapsed = elapsed now b, stCostUSD = costUsed b, stTokens = tokensUsed b,
      stIterations = iterationsUsed b, stMaxDuration = maxDuration b, stMaxCostUSD = maxCostUSD b,
      stMaxTokens = maxTokens b, stMaxIterations = maxIterations b\<rparr>"

text \<open>\<open>Axes\<close>: used and remaining of every enforced axis, in the order of \<open>budgetDimensions\<close>.\<close>

definition axis_standing :: "string \<times> f64 \<times> f64 \<Rightarrow> (string \<times> f64 \<times> f64) option" where
  "axis_standing axis =
     (case axis of (ax, used, limit) \<Rightarrow>
        if f_le limit f_zero then None
        else let left = f_sub limit used in Some (ax, used, if f_lt left f_zero then f_zero else left))"

definition Axes :: "int \<Rightarrow> SharedBudget option \<Rightarrow> (string \<times> f64 \<times> f64) list" where
  "Axes now ob = (case ob of None \<Rightarrow> [] | Some b \<Rightarrow> List.map_filter axis_standing (axis_list now b))"

section \<open>Exit grace\<close>

text \<open>The ceilings in axis order, for the graced room.\<close>

definition ceiling_list :: "SharedBudget \<Rightarrow> f64 list" where
  "ceiling_list b =
     [f_of_int (clIterations (ceil b)), f_of_int (clTokens (ceil b)), clCost (ceil b), f_of_int (clDuration (ceil b))]"

text \<open>The \<open>room\<close> closure: the first graced dimension, or \<open>None\<close> once an axis has no room.\<close>

fun grace_axes :: "f64 \<Rightarrow> string \<Rightarrow> ((string \<times> f64 \<times> f64) \<times> f64) list \<Rightarrow> (string \<times> bool)" where
  "grace_axes ratio graced [] = (graced, True)"
| "grace_axes ratio graced (((ax, used, limit), cl) # rest) =
     (if f_le limit f_zero then grace_axes ratio graced rest
      else if f_le (bounded_f (f_mul limit (f_add f_one ratio)) cl) used then (graced, False)
      else grace_axes ratio (if f_le limit used \<and> graced = [] then ax else graced) rest)"

definition exitGraceRoom :: "int \<Rightarrow> f64 \<Rightarrow> SharedBudget \<Rightarrow> string \<times> bool" where
  "exitGraceRoom now ratio b =
     (case grace_axes ratio [] (zip (axis_list now b) (ceiling_list b)) of
        (graced, ok) \<Rightarrow> (graced, ok \<and> graced \<noteq> []))"

definition GracedRemainingDuration :: "int \<Rightarrow> f64 \<Rightarrow> SharedBudget \<Rightarrow> int \<times> bool" where
  "GracedRemainingDuration now ratio b =
     (if maxDuration b \<le> 0 then (0, False)
      else (bounded_int (f_to_int64 (f_mul (f_of_int (maxDuration b)) (f_add f_one ratio))) (clDuration (ceil b))
              - elapsed now b, True))"

section \<open>What a node boundary decides\<close>

definition findExceeded :: "check_result list \<Rightarrow> check_result option" where
  "findExceeded rs = find crExceeded rs"

definition findHardLimited :: "check_result list \<Rightarrow> check_result option" where
  "findHardLimited rs = find crHardLimited rs"

definition findWarnings :: "check_result list \<Rightarrow> check_result list" where
  "findWarnings rs = filter crWarning rs"

text \<open>
  What the boundary reads beside the budget: whether the loop guard is on for the run and every
  declared loop, the grace ratio in force, whether the state is a parallel branch's, and the
  declared \<open>on_exceeded\<close> policy.
\<close>

record budget_env =
  beGuardsOn :: bool
  beGraceRatio :: f64
  beBranchLocal :: bool
  bePausePolicy :: bool

datatype budget_verdict =
    Proceed
  | Graced check_result               \<comment> \<open>runs on a spent budget, audited\<close>
  | PauseDaily                        \<comment> \<open>the shared daily spend cap\<close>
  | PauseCap check_result             \<comment> \<open>parked by \<open>on_exceeded: pause\<close>\<close>
  | FailExceeded check_result
  | FailHardLimit check_result

definition withinSharedBudgetGrace :: "budget_env \<Rightarrow> int \<Rightarrow> SharedBudget \<Rightarrow> bool" where
  "withinSharedBudgetGrace be now b \<longleftrightarrow>
     beGuardsOn be \<and> f_lt f_zero (beGraceRatio be) \<and> snd (exitGraceRoom now (beGraceRatio be) b)"

definition withinBudgetGrace :: "budget_env \<Rightarrow> int \<Rightarrow> SharedBudget \<Rightarrow> bool" where
  "withinBudgetGrace be now b \<longleftrightarrow> \<not> beBranchLocal be \<and> withinSharedBudgetGrace be now b"

definition failBudgetExceeded :: "budget_env \<Rightarrow> check_result \<Rightarrow> budget_verdict" where
  "failBudgetExceeded be exc = (if bePausePolicy be then PauseCap exc else FailExceeded exc)"

definition graceOrFailBudget :: "budget_env \<Rightarrow> int \<Rightarrow> SharedBudget \<Rightarrow> check_result \<Rightarrow> budget_verdict" where
  "graceOrFailBudget be now b exc =
     (if withinBudgetGrace be now b then Graced exc else failBudgetExceeded be exc)"

text \<open>
  \<open>checkBudgetBeforeExec\<close>; \<open>daily\<close> says whether the shared ledger is over its cap (a failed read
  of it only logs). The warnings of the check are dropped, as the code drops them.
\<close>

definition checkBudgetBeforeExec :: "budget_env \<Rightarrow> bool \<Rightarrow> int \<Rightarrow> SharedBudget option \<Rightarrow>
    budget_verdict \<times> SharedBudget option" where
  "checkBudgetBeforeExec be daily now ob =
     (if daily then (PauseDaily, ob)
      else
        (case ob of
           None \<Rightarrow> (Proceed, None)
         | Some b \<Rightarrow>
             (case Check now b of (rs, b1) \<Rightarrow>
                (case findExceeded rs of
                   Some exc \<Rightarrow> (graceOrFailBudget be now b1 exc, Some b1)
                 | None \<Rightarrow>
                     (case findHardLimited rs of
                        Some hl \<Rightarrow> (if bePausePolicy be then PauseCap hl else FailHardLimit hl, Some b1)
                      | None \<Rightarrow> (Proceed, Some b1))))))"

text \<open>
  \<open>recordBudgetOn\<close> from the spend on: the warnings to emit, and an overrun noted for the next
  boundary or decided here.
\<close>

definition recordBudget :: "budget_env \<Rightarrow> int \<Rightarrow> nodeSpend \<Rightarrow> bool \<Rightarrow> bool \<Rightarrow> SharedBudget \<Rightarrow>
    check_result list \<times> budget_verdict \<times> SharedBudget" where
  "recordBudget be now sp deferExceeded countIteration b =
     (case recordUsage now sp countIteration b of (rs, b1) \<Rightarrow>
        (case findExceeded rs of
           None \<Rightarrow> (findWarnings rs, Proceed, b1)
         | Some exc \<Rightarrow>
             if deferExceeded then (findWarnings rs, Proceed, noteExceeded (Some exc) b1)
             else (findWarnings rs, graceOrFailBudget be now b1 exc, b1)))"

text \<open>\<open>recordAttemptSpend\<close>: what a failed or retried node burned, never a verdict.\<close>

definition spend_empty :: "nodeSpend \<Rightarrow> bool" where
  "spend_empty sp \<longleftrightarrow> spTokens sp = 0 \<and> f_eq (spCostUSD sp) f_zero \<and> spUnreported sp = 0"

definition onlyUnreported :: "nodeSpend \<Rightarrow> bool" where
  "onlyUnreported sp \<longleftrightarrow> spTokens sp = 0 \<and> f_eq (spCostUSD sp) f_zero \<and> 0 < spUnreported sp"

definition recordAttemptSpend :: "budget_env \<Rightarrow> int \<Rightarrow> nodeSpend \<Rightarrow> bool \<Rightarrow> SharedBudget \<Rightarrow>
    check_result list \<times> SharedBudget" where
  "recordAttemptSpend be now sp countIteration b =
     (if spend_empty sp then ([], b)
      else if onlyUnreported sp then noteUnreported (spUnreported sp) b
      else (case recordBudget be now sp True countIteration b of (ws, v, b1) \<Rightarrow> (ws, b1)))"

text \<open>\<open>failSpentBudgetBeforeResume\<close>: the same decision before a resume provisions anything.\<close>

definition failSpentBudgetBeforeResume :: "(string \<Rightarrow> string) \<Rightarrow> budget_env \<Rightarrow> int \<Rightarrow> consumption \<Rightarrow>
    BudgetOverrides option \<Rightarrow> SharedBudget option \<Rightarrow> budget_verdict" where
  "failSpentBudgetBeforeResume env be now cp raises ob =
     (case ob of
        None \<Rightarrow> Proceed
      | Some b0 \<Rightarrow>
          (let b1 = Restore now cp b0;
               b2 = (case raises of None \<Rightarrow> b1 | Some o' \<Rightarrow> fst (RaiseCaps env now o' b1));
               (rs, b3) = Check now b2
           in case findExceeded rs of
                Some exc \<Rightarrow> (if withinSharedBudgetGrace be now b3 then Proceed else failBudgetExceeded be exc)
              | None \<Rightarrow>
                  (case findHardLimited rs of
                     Some hard \<Rightarrow> (if bePausePolicy be then PauseCap hard else FailHardLimit hard)
                   | None \<Rightarrow> Proceed)))"

end
