(* ===== verification/GoFloatOk.thy ===== *)
theory GoFloatOk
  imports GoFloat
begin

text \<open>
  Facts on rounding: the exponent of a rational, the doubles a computation can hold, and that a
  quotient of two of them reaches one exactly when the dividend reaches the divisor.
\<close>

lemma pow2_powi: "pow2 e = 2 powi e"
  by (simp add: pow2_def power_int_def field_simps)

lemma pow2_pos [simp]: "0 < pow2 e"
  by (simp add: pow2_def)

lemma pow2_nonzero [simp]: "pow2 e \<noteq> 0"
  by (metis less_irrefl pow2_pos)

lemma pow2_add: "pow2 (a + b) = pow2 a * pow2 b"
  by (simp add: pow2_powi power_int_add)

lemma pow2_Suc: "pow2 (e + 1) = 2 * pow2 e"
  by (simp add: pow2_add pow2_def [of 1])

lemma pow2_mono: "a \<le> b \<Longrightarrow> pow2 a \<le> pow2 b"
  by (simp add: pow2_powi power_int_increasing)

lemma ilog2_bounds: "0 < q \<Longrightarrow> pow2 (ilog2 q) \<le> q \<and> q < pow2 (ilog2 q + 1)"
proof (induction q rule: ilog2.induct)
  case (1 q)
  consider "2 \<le> q" | "q < 1" | "1 \<le> q" "q < 2" by linarith
  then show ?case
  proof cases
    case 1
    with "1.IH"(1) "1.prems" have "pow2 (ilog2 (q / 2)) \<le> q / 2 \<and> q / 2 < pow2 (ilog2 (q / 2) + 1)" by simp
    with 1 show ?thesis
      by (simp add: ilog2_eval(1) pow2_add pow2_def [of 1] pow2_def [of 2] field_simps)
  next
    case 2
    with "1.IH"(2) "1.prems" have "pow2 (ilog2 (2 * q)) \<le> 2 * q \<and> 2 * q < pow2 (ilog2 (2 * q) + 1)" by simp
    with 2 "1.prems" pow2_Suc [of "ilog2 (2 * q) - 1"] show ?thesis
      by (simp add: ilog2_eval(2) pow2_Suc)
  next
    case 3
    then show ?thesis by (simp add: ilog2_eval(3) pow2_def)
  qed
qed

lemma ilog2_ge: "0 < q \<Longrightarrow> pow2 e \<le> q \<Longrightarrow> e \<le> ilog2 q"
proof (rule ccontr)
  assume q: "0 < q" "pow2 e \<le> q" "\<not> e \<le> ilog2 q"
  then have "pow2 (ilog2 q + 1) \<le> pow2 e" by (intro pow2_mono) simp
  with ilog2_bounds [OF q(1)] q(2) show False by simp
qed

lemma ilog2_lt: "0 < q \<Longrightarrow> q < pow2 e \<Longrightarrow> ilog2 q < e"
proof (rule ccontr)
  assume q: "0 < q" "q < pow2 e" "\<not> ilog2 q < e"
  then have "pow2 e \<le> pow2 (ilog2 q)" by (intro pow2_mono) simp
  with ilog2_bounds [OF q(1)] q(2) show False by simp
qed

lemma rhe_bounds: "of_int (round_half_even q) \<le> q + 1 / 2" "q - 1 / 2 \<le> of_int (round_half_even q)"
  using floor_correct [of q] of_int_floor_le [of q] by (auto simp: round_half_even_def Let_def) (linarith+)?

lemma rhe_ge_int: "of_int n \<le> q \<Longrightarrow> n \<le> round_half_even q"
  using le_floor_iff [of n q] by (auto simp: round_half_even_def Let_def)

lemma rhe_le_int: "q \<le> of_int n \<Longrightarrow> round_half_even q \<le> n"
proof -
  assume q: "q \<le> of_int n"
  then have "\<lfloor>q\<rfloor> \<le> n" by linarith
  moreover have "\<lfloor>q\<rfloor> = n \<Longrightarrow> q - of_int \<lfloor>q\<rfloor> < 1 / 2" using q by simp
  ultimately show ?thesis by (cases "\<lfloor>q\<rfloor> = n") (auto simp: round_half_even_def Let_def)
qed

text \<open>The scaled magnitude that is rounded to an integer, and its bound.\<close>

definition f_unit :: "rat \<Rightarrow> int" where
  "f_unit a = max (ilog2 a - 52) (- 1074)"

lemma fround_pos:
  assumes "0 < q"
  shows "fround F64 s q =
    (if pow2 1024 \<le> of_int (round_half_even (q / pow2 (f_unit q))) * pow2 (f_unit q) then FInf False
     else FFin False (of_int (round_half_even (q / pow2 (f_unit q))) * pow2 (f_unit q)))"
  using assms by (simp add: fround_def Let_def F64_def f_unit_def)

lemma f_unit_scaled:
  assumes "0 < q"
  shows "q / pow2 (f_unit q) < 2 ^ 53"
proof -
  have "q < pow2 (ilog2 q + 1)" using ilog2_bounds [OF assms] by simp
  also have "\<dots> \<le> pow2 (f_unit q + 53)" by (rule pow2_mono) (simp add: f_unit_def)
  also have "\<dots> = 2 ^ 53 * pow2 (f_unit q)" by (simp add: pow2_add pow2_def [of 53])
  finally show ?thesis by (simp add: divide_less_eq)
qed

lemma fround_ge_one:
  assumes "1 \<le> q"
  shows "f_le (FFin t 1) (fround F64 s q)"
proof -
  let ?u = "f_unit q" and ?n = "round_half_even (q / pow2 (f_unit q))"
  have e: "0 \<le> ilog2 q" using ilog2_ge [of q 0] assms by (simp add: pow2_def)
  then have u: "?u = ilog2 q - 52" by (simp add: f_unit_def)
  have "pow2 (ilog2 q) = 2 ^ 52 * pow2 ?u" using pow2_add [of 52 ?u] u by (simp add: pow2_def [of 52])
  then have "2 ^ 52 \<le> q / pow2 ?u" using ilog2_bounds [of q] assms by (simp add: le_divide_eq)
  then have "2 ^ 52 \<le> ?n" by (intro rhe_ge_int) simp
  then have "(2 ^ 52 :: rat) \<le> of_int ?n" by (metis of_int_le_iff of_int_numeral of_int_power)
  then have "2 ^ 52 * pow2 ?u \<le> of_int ?n * pow2 ?u" by (intro mult_right_mono) (simp_all add: less_imp_le)
  moreover have "1 \<le> pow2 (ilog2 q)" using pow2_mono [OF e] by (simp add: pow2_def [of 0])
  ultimately have "1 \<le> of_int ?n * pow2 ?u"
    using \<open>pow2 (ilog2 q) = _\<close> by (metis order_trans)
  then show ?thesis using assms by (auto simp: fround_pos f_le_def)
qed

lemma fround_lt_one:
  assumes "q \<le> 1 - 1 / 2 ^ 53"
  shows "\<not> f_le (FFin t 1) (fround F64 s q)"
proof (cases "0 < q")
  case False
  let ?u = "max (ilog2 \<bar>q\<bar> - (prec F64 - 1)) (emin F64)"
  have "0 \<le> round_half_even (\<bar>q\<bar> / pow2 ?u)"
    by (rule rhe_ge_int) (simp add: less_imp_le)
  then have "0 \<le> of_int (round_half_even (\<bar>q\<bar> / pow2 ?u)) * pow2 ?u"
    by (intro mult_nonneg_nonneg) (simp_all add: less_imp_le)
  then have "\<not> 1 \<le> - (of_int (round_half_even (\<bar>q\<bar> / pow2 ?u)) * pow2 ?u)" by linarith
  with False show ?thesis by (auto simp: fround_def Let_def f_le_def)
next
  case True
  let ?u = "f_unit q" and ?n = "round_half_even (q / pow2 (f_unit q))"
  have e: "ilog2 q < 0" by (rule ilog2_lt [OF True]) (use assms in \<open>simp add: pow2_def\<close>)
  have "of_int ?n * pow2 ?u < 1"
  proof (cases "ilog2 q = -1")
    case eq: True
    then have u: "?u = -53" by (simp add: f_unit_def)
    have "q / pow2 ?u \<le> of_int (2 ^ 53 - 1)" using assms by (simp add: u pow2_def field_simps)
    then have "?n \<le> 2 ^ 53 - 1" by (rule rhe_le_int)
    then have "(of_int ?n :: rat) \<le> of_int (2 ^ 53 - 1)" by (simp only: of_int_le_iff)
    then show ?thesis by (simp add: u pow2_def)
  next
    case False
    then have "q < pow2 (-1)" using e ilog2_bounds [OF True] pow2_mono [of "ilog2 q + 1" "-1"] by linarith
    moreover have "pow2 ?u \<le> pow2 (-54)" using e False by (intro pow2_mono) (simp add: f_unit_def)
    moreover have "of_int ?n * pow2 ?u \<le> (q / pow2 ?u + 1 / 2) * pow2 ?u"
      by (intro mult_right_mono rhe_bounds) (simp add: less_imp_le)
    then have "of_int ?n * pow2 ?u \<le> q + pow2 ?u / 2" by (simp add: distrib_right)
    ultimately show ?thesis by (simp add: pow2_def)
  qed
  moreover have "(1 :: rat) \<le> pow2 1024" using pow2_mono [of 0 1024] by (simp add: pow2_def [of 0])
  ultimately have "\<not> pow2 1024 \<le> of_int ?n * pow2 ?u" "\<not> 1 \<le> of_int ?n * pow2 ?u" by linarith+
  with True show ?thesis by (simp add: fround_pos f_le_def)
qed

section \<open>The doubles a computation holds\<close>

text \<open>A significand below \<open>2 ^ 53\<close> at some exponent, and the sign of the value.\<close>

fun is_f64 :: "f64 \<Rightarrow> bool" where
  "is_f64 (FFin s q) =
     ((q \<noteq> 0 \<longrightarrow> s = (q < 0)) \<and> (\<exists>m e. \<bar>m\<bar> < (2 :: int) ^ 53 \<and> q = of_int m * pow2 e))"
| "is_f64 _ = True"

fun f_fin :: "f64 \<Rightarrow> bool" where
  "f_fin (FFin s q) = True"
| "f_fin _ = False"

lemma fround_eq:
  "q \<noteq> 0 \<Longrightarrow> fround F64 s q =
    (let v = of_int (round_half_even (\<bar>q\<bar> / pow2 (f_unit \<bar>q\<bar>))) * pow2 (f_unit \<bar>q\<bar>)
     in if pow2 1024 \<le> v then FInf (q < 0) else FFin (q < 0) (if q < 0 then - v else v))"
  by (simp add: fround_def Let_def F64_def f_unit_def)

lemma fround_is_f64: "is_f64 (fround F64 s q)"
proof (cases "q = 0")
  case True
  then show ?thesis by (auto simp: fround_def intro!: exI [of _ 0])
next
  case False
  let ?a = "\<bar>q\<bar>"
  let ?u = "f_unit ?a" and ?n = "round_half_even (?a / pow2 (f_unit ?a))"
  have a: "0 < ?a" using False by simp
  have "?n \<le> 2 ^ 53" using f_unit_scaled [OF a] by (intro rhe_le_int) simp
  moreover have "0 \<le> ?n" by (rule rhe_ge_int) (simp add: less_imp_le)
  ultimately consider "?n = 2 ^ 53" | "\<bar>?n\<bar> < 2 ^ 53" by linarith
  then have rep: "\<exists>m e. \<bar>m\<bar> < (2 :: int) ^ 53 \<and> of_int ?n * pow2 ?u = of_int m * pow2 e"
  proof cases
    case 1
    then show ?thesis by (intro exI [of _ "2 ^ 52"] exI [of _ "?u + 1"]) (simp add: pow2_Suc)
  qed blast
  define v where "v = of_int ?n * pow2 ?u"
  have v: "0 \<le> v" using \<open>0 \<le> ?n\<close> by (simp add: v_def less_imp_le)
  obtain m e where "\<bar>m\<bar> < (2 :: int) ^ 53" "v = of_int m * pow2 e" using rep v_def by blast
  then have "\<exists>m' e'. \<bar>m'\<bar> < (2 :: int) ^ 53 \<and> - v = of_int m' * pow2 e'"
    by (intro exI [of _ "- m"] exI [of _ e]) simp
  with rep v fround_eq [OF False, of s] show ?thesis
    unfolding v_def [symmetric] by (auto simp: Let_def)
qed

lemma is_f64_ops: "is_f64 (f_of_rat q)" "is_f64 (f_of_int n)" "is_f64 (f_add x y)" "is_f64 (f_div x y)"
proof -
  show "is_f64 (f_of_rat q)" "is_f64 (f_of_int n)" by (simp_all add: f_of_rat_def f_of_int_def fround_is_f64)
  show "is_f64 (f_add x y)" by (cases x; cases y) (simp_all add: fround_is_f64)
  show "is_f64 (f_div x y)"
    by (cases x; cases y) (auto simp: fround_is_f64 intro!: exI [of _ 0])
qed

lemma f_of_int_fin: "\<bar>n\<bar> < 2 ^ 64 \<Longrightarrow> f_fin (f_of_int n)"
proof (cases "n = 0")
  case False
  assume n: "\<bar>n\<bar> < 2 ^ 64"
  let ?a = "\<bar>of_int n :: rat\<bar>"
  let ?u = "f_unit ?a"
  have a: "0 < ?a" using False by simp
  have "?a < pow2 64" using n by (simp add: pow2_def flip: of_int_abs)
  then have "ilog2 ?a < 64" by (rule ilog2_lt [OF a])
  then have u: "?u \<le> 11" by (simp add: f_unit_def)
  have "round_half_even (?a / pow2 ?u) \<le> 2 ^ 53" using f_unit_scaled [OF a] by (intro rhe_le_int) simp
  then have "(of_int (round_half_even (?a / pow2 ?u)) :: rat) \<le> 2 ^ 53"
    by (metis of_int_le_iff of_int_numeral of_int_power)
  then have "of_int (round_half_even (?a / pow2 ?u)) * pow2 ?u \<le> 2 ^ 53 * pow2 11"
    using pow2_mono [OF u] by (intro mult_mono) (simp_all add: less_imp_le)
  also have "\<dots> < pow2 1024" by (simp add: pow2_def)
  finally show ?thesis using False by (simp add: f_of_int_def f_of_rat_def fround_def Let_def F64_def f_unit_def)
qed (simp add: f_of_int_def f_of_rat_def fround_def)

text \<open>Two doubles, the lesser positive one short of the greater by a unit of it at least.\<close>

lemma quotient_gap:
  fixes m n :: int
  assumes m: "m < 2 ^ 53" and n: "n < 2 ^ 53" and lt: "of_int m * pow2 e < of_int n * pow2 f"
    and pos: "0 < of_int n * pow2 f"
  shows "of_int m * pow2 e / (of_int n * pow2 f) \<le> 1 - 1 / 2 ^ 53"
proof -
  let ?a = "of_int m * pow2 e" and ?b = "of_int n * pow2 f"
  have key: "?a \<le> ?b - ?b / 2 ^ 53"
  proof (cases "2 ^ 53 * pow2 e \<le> ?b")
    case True
    have "(of_int m :: rat) \<le> of_int (2 ^ 53 - 1)" using m by (simp only: of_int_le_iff)
    then have "?a \<le> (2 ^ 53 - 1) * pow2 e" by (intro mult_right_mono) (simp_all add: less_imp_le)
    also have "\<dots> = 2 ^ 53 * pow2 e - 2 ^ 53 * pow2 e / 2 ^ 53" by (simp add: field_simps)
    also have "\<dots> \<le> ?b - ?b / 2 ^ 53" using True by (simp add: field_simps)
    finally show ?thesis .
  next
    case small: False
    have gap: "pow2 g \<le> ?b - ?a \<and> ?b < 2 ^ 53 * pow2 g" if g: "g = min e f" for g
    proof
      obtain i j :: int where ij: "?a = of_int i * pow2 g" "?b = of_int j * pow2 g"
      proof
        show "?a = of_int (m * 2 ^ nat (e - g)) * pow2 g" "?b = of_int (n * 2 ^ nat (f - g)) * pow2 g"
          using pow2_add [of "e - g" g] pow2_add [of "f - g" g] g by (simp_all add: pow2_def [of "_ - _"])
      qed
      with lt have "i < j" by simp
      then have "(1 :: rat) \<le> of_int (j - i)" by (simp only: of_int_1_le_iff)
      then have "1 * pow2 g \<le> of_int (j - i) * pow2 g" by (intro mult_right_mono) (simp_all add: less_imp_le)
      then show "pow2 g \<le> ?b - ?a" by (simp add: ij left_diff_distrib)
      have "(of_int n :: rat) < of_int (2 ^ 53)" using n by (simp only: of_int_less_iff)
      then have "?b < 2 ^ 53 * pow2 f" by (intro mult_strict_right_mono) simp_all
      with small g show "?b < 2 ^ 53 * pow2 g" by (auto simp: min_def)
    qed
    from gap [OF refl] show ?thesis by (simp add: field_simps)
  qed
  then have "?a / ?b \<le> (?b - ?b / 2 ^ 53) / ?b" using pos by (intro divide_right_mono) simp_all
  also have "\<dots> = 1 - 1 / 2 ^ 53"
    using pos less_imp_neq [OF pos] by (simp only: diff_divide_distrib) (simp add: field_simps)
  finally show ?thesis .
qed

lemma ratio_reaches_one:
  assumes "is_f64 x" "is_f64 y" "f_fin y" "f_lt f_zero y" "\<not> f_is_nan x"
  shows "f_le (f_of_int 1) (f_div x y) \<longleftrightarrow> \<not> f_lt x y"
proof -
  have one: "f_of_int 1 = FFin False 1"
    by (simp add: float_eval)
  obtain t b where y: "y = FFin t b" "0 < b" using assms(3,4) by (cases y) (auto simp: f_zero_def)
  show ?thesis
  proof (cases x)
    case (FFin s a)
    from assms(1,2) FFin y obtain m e n f where
      mn: "\<bar>m\<bar> < 2 ^ 53" "a = of_int m * pow2 e" "\<bar>n\<bar> < 2 ^ 53" "b = of_int n * pow2 f" by auto
    show ?thesis
    proof (cases "a < b")
      case True
      have "a / b \<le> 1 - 1 / 2 ^ 53"
        using quotient_gap [of m n e f] mn True y by simp
      with True FFin y show ?thesis by (simp add: one fround_lt_one)
    next
      case False
      with FFin y fround_ge_one [of "a / b"] show ?thesis by (simp add: one)
    qed
  qed (use y assms in \<open>auto simp: one f_le_def\<close>)
qed

end
