(* ===== verification/RunBudgetOk.thy ===== *)
theory RunBudgetOk
  imports RunBudget GoFloatOk
begin

text \<open>
  Facts on the run budget: the methods of \<open>SharedBudget\<close> as the steps of one machine, the
  contract of a warning source (each dimension warns at most once) and its instance, the
  agreement of the two overrun checks, what a raise, a restore, a clamp and a boundary verdict keep.
\<close>

section \<open>The methods as steps\<close>

datatype budget_op =
    OpCheck int
  | OpRecord int nodeSpend bool
  | OpUnreported int
  | OpNoteExceeded "check_result option"
  | OpTakeExceeded

primrec budget_step :: "budget_op \<Rightarrow> SharedBudget \<Rightarrow> check_result list \<times> SharedBudget" where
  "budget_step (OpCheck now) b = Check now b"
| "budget_step (OpRecord now sp ci) b = recordUsage now sp ci b"
| "budget_step (OpUnreported n) b = noteUnreported n b"
| "budget_step (OpNoteExceeded exc) b = ([], noteExceeded exc b)"
| "budget_step OpTakeExceeded b = ([], snd (takeExceeded b))"

text \<open>An interleaving of branches is a list of operations; its results in order.\<close>

fun budget_run :: "budget_op list \<Rightarrow> SharedBudget \<Rightarrow> check_result list \<times> SharedBudget" where
  "budget_run [] b = ([], b)"
| "budget_run (p # ops) b =
     (case budget_step p b of (rs, b1) \<Rightarrow> (case budget_run ops b1 of (rs2, b2) \<Rightarrow> (rs @ rs2, b2)))"

section \<open>Warning sources\<close>

text \<open>
  A source of warnings keeps the dimensions it has warned about: a step only adds to them, warns
  about no dimension already there, about none twice, and books each.
\<close>

definition warned_dims :: "check_result list \<Rightarrow> string list" where
  "warned_dims rs = map crDimension (filter crWarning rs)"

lemma warned_dims_append [simp]: "warned_dims (rs @ rs2) = warned_dims rs @ warned_dims rs2"
  by (simp add: warned_dims_def)

lemma warned_dims_Nil [simp]: "warned_dims [] = []"
  by (simp add: warned_dims_def)

lemma warned_dims_Cons [simp]:
  "warned_dims (r # rs) = (if crWarning r then crDimension r # warned_dims rs else warned_dims rs)"
  by (simp add: warned_dims_def)

definition warns_once :: "string list \<Rightarrow> check_result list \<Rightarrow> string list \<Rightarrow> bool" where
  "warns_once w rs w' \<longleftrightarrow> distinct (warned_dims rs) \<and> set (warned_dims rs) \<inter> set w = {} \<and>
     set w' = set w \<union> set (warned_dims rs)"

lemma warns_once_Nil [simp]: "warns_once w [] w"
  by (simp add: warns_once_def)

lemma warns_once_quiet: "\<not> crWarning r \<Longrightarrow> warns_once w [r] w"
  by (simp add: warns_once_def)

lemma warns_once_loud: "crWarning r \<Longrightarrow> crDimension r \<notin> set w \<Longrightarrow> warns_once w [r] (crDimension r # w)"
  by (simp add: warns_once_def)

lemma warns_once_append:
  "warns_once w rs w1 \<Longrightarrow> warns_once w1 rs2 w2 \<Longrightarrow> warns_once w (rs @ rs2) w2"
  by (auto simp: warns_once_def)

locale warning_source =
  fixes step :: "'op \<Rightarrow> 'b \<Rightarrow> check_result list \<times> 'b"
    and warnedOf :: "'b \<Rightarrow> string list"
    and runs :: "'op list \<Rightarrow> 'b \<Rightarrow> check_result list \<times> 'b"
  assumes step_once: "warns_once (warnedOf b) (fst (step p b)) (warnedOf (snd (step p b)))"
    and runs_Nil: "runs [] b = ([], b)"
    and runs_Cons: "runs (p # ops) b =
      (fst (step p b) @ fst (runs ops (snd (step p b))), snd (runs ops (snd (step p b))))"
begin

lemma runs_once: "warns_once (warnedOf b) (fst (runs ops b)) (warnedOf (snd (runs ops b)))"
  by (induction ops arbitrary: b) (auto simp: runs_Nil runs_Cons intro: warns_once_append step_once)

end

lemma check_axis_once: "check_axis w a = (rs, w') \<Longrightarrow> warns_once w rs w'"
  by (cases a) (auto simp: check_axis_def Let_def plain_check_def warns_once_def split: if_splits)

lemma check_axes_once: "check_axes w as = (rs, w') \<Longrightarrow> warns_once w rs w'"
  by (induction as arbitrary: w rs w') (auto split: prod.splits intro: warns_once_append check_axis_once)

lemma warn_tokens_once: "warn_tokens_check b w = (rs, w') \<Longrightarrow> warns_once w rs w'"
  by (auto simp: warn_tokens_check_def plain_check_def warns_once_def split: if_splits)

lemma checkLocked_once: "checkLocked now b = (rs, b') \<Longrightarrow> warns_once (warned b) rs (warned b')"
  by (auto simp: checkLocked_def split: prod.splits intro: warns_once_append [OF check_axes_once warn_tokens_once])

lemma unpricedWarning_once: "unpricedWarningLocked b = (rs, b') \<Longrightarrow> warns_once (warned b) rs (warned b')"
  by (auto simp: unpricedWarningLocked_def plain_check_def warns_once_def split: if_splits)

lemma unreportedWarning_once: "unreportedWarningLocked b = (rs, b') \<Longrightarrow> warns_once (warned b) rs (warned b')"
  by (auto simp: unreportedWarningLocked_def plain_check_def warns_once_def split: if_splits)

lemma book_spend_warned [simp]: "warned (book_spend sp ci b) = warned b"
  by (simp add: book_spend_def Let_def)

lemma recordUsage_once: "recordUsage now sp ci b = (rs, b') \<Longrightarrow> warns_once (warned b) rs (warned b')"
proof (clarsimp simp: recordUsage_def split: prod.splits)
  fix rs1 b1 rs2 b2 rs3
  assume "checkLocked now (book_spend sp ci b) = (rs1, b1)" "unpricedWarningLocked b1 = (rs2, b2)"
    "unreportedWarningLocked b2 = (rs3, b')"
  from checkLocked_once [OF this(1)] unpricedWarning_once [OF this(2)] unreportedWarning_once [OF this(3)]
  show "warns_once (warned b) (rs1 @ rs2 @ rs3) (warned b')" by (auto intro: warns_once_append)
qed

lemma noteUnreported_once: "noteUnreported n b = (rs, b') \<Longrightarrow> warns_once (warned b) rs (warned b')"
  using unreportedWarning_once [of "b\<lparr>unreportedCalls := unreportedCalls b + n\<rparr>"]
  by (auto simp: noteUnreported_def split: if_splits)

interpretation ws: warning_source budget_step warned budget_run
proof
  fix b :: SharedBudget and p
  show "warns_once (warned b) (fst (budget_step p b)) (warned (snd (budget_step p b)))"
    by (cases p) (auto simp: Check_def noteExceeded_def takeExceeded_def intro: checkLocked_once
        recordUsage_once noteUnreported_once prod.collapse)
qed (auto split: prod.splits)


section \<open>What a run of operations books\<close>

text \<open>The fields no operation but a raise or a restore writes.\<close>

definition caps_of :: "SharedBudget \<Rightarrow> int \<times> f64 \<times> int \<times> int \<times> int \<times> bool \<times> BudgetCeiling \<times> bool \<times> int" where
  "caps_of b = (maxTokens b, maxCostUSD b, maxIterations b, maxDuration b, warnTokens b, capImposed b, ceil b,
     everRaised b, startedAt b)"

definition spent_of :: "SharedBudget \<Rightarrow> int \<times> f64 \<times> int \<times> int \<times> int \<times> int" where
  "spent_of b = (tokensUsed b, costUsed b, iterationsUsed b, unpricedTokens b, unpricedNodes b, unreportedCalls b)"

lemma checkLocked_keeps: "checkLocked now b = (rs, b') \<Longrightarrow> b' = b\<lparr>warned := warned b'\<rparr>"
  by (auto simp: checkLocked_def split: prod.splits)

lemma unpricedWarning_keeps: "unpricedWarningLocked b = (rs, b') \<Longrightarrow> b' = b\<lparr>warned := warned b'\<rparr>"
  by (auto simp: unpricedWarningLocked_def split: if_splits)

lemma unreportedWarning_keeps: "unreportedWarningLocked b = (rs, b') \<Longrightarrow> b' = b\<lparr>warned := warned b'\<rparr>"
  by (auto simp: unreportedWarningLocked_def split: if_splits)

lemma recordUsage_keeps:
  assumes "recordUsage now sp ci b = (rs, b')"
  shows "b' = (book_spend sp ci b)\<lparr>warned := warned b'\<rparr>"
proof -
  from assms obtain rs1 b1 rs2 b2 rs3 where
    "checkLocked now (book_spend sp ci b) = (rs1, b1)" "unpricedWarningLocked b1 = (rs2, b2)"
    "unreportedWarningLocked b2 = (rs3, b')"
    by (auto simp: recordUsage_def split: prod.splits)
  note k = checkLocked_keeps [OF this(1)] unpricedWarning_keeps [OF this(2)] unreportedWarning_keeps [OF this(3)]
  show ?thesis by (subst k(3), subst k(2), subst k(1)) simp
qed

lemma noteUnreported_keeps:
  assumes "noteUnreported n b = (rs, b')"
  shows "b' = b\<lparr>unreportedCalls := unreportedCalls b + max n 0, warned := warned b'\<rparr>"
proof (cases "n \<le> 0")
  case False
  with assms have "unreportedWarningLocked (b\<lparr>unreportedCalls := unreportedCalls b + n\<rparr>) = (rs, b')"
    by (simp add: noteUnreported_def)
  from unreportedWarning_keeps [OF this] False show ?thesis by simp
qed (use assms in \<open>simp add: noteUnreported_def\<close>)

lemma book_spend_fields:
  "tokensUsed (book_spend sp ci b) = tokensUsed b + spTokens sp"
  "iterationsUsed (book_spend sp ci b) = iterationsUsed b + (if ci then 1 else 0)"
  "unreportedCalls (book_spend sp ci b) = unreportedCalls b + spUnreported sp"
  "costUsed (book_spend sp ci b) = (if f_lt f_zero (spCostUSD sp) then f_add (costUsed b) (spCostUSD sp) else costUsed b)"
  "pending (book_spend sp ci b) = pending b"
  "caps_of (book_spend sp ci b) = caps_of b"
  by (simp_all add: book_spend_def Let_def caps_of_def)

text \<open>What one operation adds to the counters, and the sum over an interleaving.\<close>

fun op_tokens :: "budget_op \<Rightarrow> int" where
  "op_tokens (OpRecord now sp ci) = spTokens sp"
| "op_tokens _ = 0"

fun op_iterations :: "budget_op \<Rightarrow> int" where
  "op_iterations (OpRecord now sp ci) = (if ci then 1 else 0)"
| "op_iterations _ = 0"

fun op_unreported :: "budget_op \<Rightarrow> int" where
  "op_unreported (OpRecord now sp ci) = spUnreported sp"
| "op_unreported (OpUnreported n) = max n 0"
| "op_unreported _ = 0"

lemma budget_step_books:
  assumes "budget_step p b = (rs, b')"
  shows "tokensUsed b' = tokensUsed b + op_tokens p"
    "iterationsUsed b' = iterationsUsed b + op_iterations p"
    "unreportedCalls b' = unreportedCalls b + op_unreported p"
    "caps_of b' = caps_of b"
proof -
  have sub: "caps_of (x\<lparr>warned := w\<rparr>) = caps_of x" "caps_of (x\<lparr>unreportedCalls := n\<rparr>) = caps_of x"
    "caps_of (x\<lparr>unreportedCalls := n, warned := w\<rparr>) = caps_of x"
    "caps_of (x\<lparr>pending := e\<rparr>) = caps_of x" for x w n e
    by (simp_all add: caps_of_def)
  have "tokensUsed b' = tokensUsed b + op_tokens p \<and> iterationsUsed b' = iterationsUsed b + op_iterations p \<and>
    unreportedCalls b' = unreportedCalls b + op_unreported p \<and> caps_of b' = caps_of b"
  proof (cases p)
    case (OpCheck now)
    with assms have "b' = b\<lparr>warned := warned b'\<rparr>" by (simp add: Check_def checkLocked_keeps)
    then obtain w where "b' = b\<lparr>warned := w\<rparr>" by blast
    with OpCheck show ?thesis by (simp add: sub)
  next
    case (OpRecord now sp ci)
    with assms have "b' = (book_spend sp ci b)\<lparr>warned := warned b'\<rparr>" by (simp add: recordUsage_keeps)
    then obtain w where "b' = (book_spend sp ci b)\<lparr>warned := w\<rparr>" by blast
    with OpRecord show ?thesis by (simp add: sub book_spend_fields)
  next
    case (OpUnreported n)
    with assms obtain w where "b' = b\<lparr>unreportedCalls := unreportedCalls b + max n 0, warned := w\<rparr>"
      using noteUnreported_keeps [of n b rs b'] by auto
    with OpUnreported show ?thesis by (simp add: sub)
  qed (use assms in \<open>auto simp: noteExceeded_def takeExceeded_def sub\<close>)
  then show "tokensUsed b' = tokensUsed b + op_tokens p" "iterationsUsed b' = iterationsUsed b + op_iterations p"
    "unreportedCalls b' = unreportedCalls b + op_unreported p" "caps_of b' = caps_of b" by simp_all
qed

lemma budget_run_Cons:
  "snd (budget_run (p # ops) b) = snd (budget_run ops (snd (budget_step p b)))"
  by (simp only: ws.runs_Cons snd_conv)

lemma budget_run_books:
  "tokensUsed (snd (budget_run ops b)) = tokensUsed b + sum_list (map op_tokens ops) \<and>
   iterationsUsed (snd (budget_run ops b)) = iterationsUsed b + sum_list (map op_iterations ops) \<and>
   unreportedCalls (snd (budget_run ops b)) = unreportedCalls b + sum_list (map op_unreported ops) \<and>
   caps_of (snd (budget_run ops b)) = caps_of b"
proof (induction ops arbitrary: b)
  case (Cons p ops)
  have "budget_step p b = (fst (budget_step p b), snd (budget_step p b))" by simp
  note step = budget_step_books [OF this]
  show ?case
    unfolding budget_run_Cons using Cons.IH [of "snd (budget_step p b)"] step by simp
qed simp

text \<open>A pending overrun is kept, whatever the interleaving, until it is taken.\<close>

lemma warned_update_pending: "b' = b\<lparr>warned := w\<rparr> \<Longrightarrow> pending b' = pending b"
  by simp

lemma budget_step_pending:
  assumes "pending b = Some e" "p \<noteq> OpTakeExceeded"
  shows "pending (snd (budget_step p b)) = Some e"
proof (cases "budget_step p b")
  case (Pair rs b')
  show ?thesis
  proof (cases p)
    case (OpCheck now)
    with Pair have "b' = b\<lparr>warned := warned b'\<rparr>" by (simp add: Check_def checkLocked_keeps)
    from warned_update_pending [OF this] Pair assms show ?thesis by simp
  next
    case (OpRecord now sp ci)
    with Pair have "b' = (book_spend sp ci b)\<lparr>warned := warned b'\<rparr>" by (simp add: recordUsage_keeps)
    from warned_update_pending [OF this] Pair assms show ?thesis by (simp add: book_spend_fields)
  next
    case (OpUnreported n)
    with Pair have "b' = b\<lparr>unreportedCalls := unreportedCalls b + max n 0, warned := warned b'\<rparr>"
      by (simp add: noteUnreported_keeps)
    from warned_update_pending [OF this] Pair assms show ?thesis by simp
  qed (use assms in \<open>auto simp: noteExceeded_def\<close>)
qed

lemma budget_run_pending:
  "pending b = Some e \<Longrightarrow> OpTakeExceeded \<notin> set ops \<Longrightarrow> pending (snd (budget_run ops b)) = Some e"
  by (induction ops arbitrary: b) (auto simp: budget_run_Cons budget_step_pending simp del: budget_run.simps(2))

section \<open>The two overrun checks\<close>

text \<open>
  What the numbers of a budget satisfy: costs are doubles, a cost counter is not negative and
  never a NaN, a cap is finite, an integer cap fits its 64 bits.
\<close>

definition fits64 :: "int \<Rightarrow> bool" where
  "fits64 n \<longleftrightarrow> \<bar>n\<bar> < 2 ^ 64"

definition budget_ok :: "SharedBudget \<Rightarrow> bool" where
  "budget_ok b \<longleftrightarrow> is_f64 (costUsed b) \<and> f_le f_zero (costUsed b) \<and> is_f64 (maxCostUSD b) \<and> f_fin (maxCostUSD b) \<and>
     fits64 (maxTokens b) \<and> fits64 (maxIterations b) \<and> fits64 (maxDuration b)"

definition axis_ok :: "string \<times> f64 \<times> f64 \<Rightarrow> bool" where
  "axis_ok axis = (case axis of (ax, used, limit) \<Rightarrow>
     is_f64 used \<and> \<not> f_is_nan used \<and> is_f64 limit \<and> f_fin limit)"

lemma f_ge_zero_not_nan: "f_le f_zero x \<Longrightarrow> \<not> f_is_nan x"
  by (cases x) (auto simp: f_le_def f_zero_def)

lemma fin_not_le: "f_fin l \<Longrightarrow> \<not> f_le l f_zero \<Longrightarrow> f_lt f_zero l"
  by (cases l) (auto simp: f_le_def f_zero_def)

lemma budget_ok_axes: "budget_ok b \<Longrightarrow> a \<in> set (axis_list now b) \<Longrightarrow> axis_ok a"
  by (auto simp: budget_ok_def axis_list_def axis_ok_def f_ge_zero_not_nan)
    (simp_all add: is_f64_ops f_of_int_fin fits64_def)

text \<open>An axis in range is over its cap exactly when its ratio reaches one.\<close>

lemma over_axis_ratio:
  assumes "axis_ok (ax, used, limit)" "\<not> f_le limit f_zero"
  shows "f_le f_one (f_div used limit) \<longleftrightarrow> \<not> f_lt used limit"
  using assms by (auto simp: axis_ok_def f_one_def fin_not_le ratio_reaches_one)

lemma check_axis_over: "axis_ok a \<Longrightarrow> findExceeded (fst (check_axis w a)) = over_axis a"
proof (cases a)
  case (fields ax used limit)
  assume "axis_ok a"
  with fields over_axis_ratio [of ax used limit] show ?thesis
    by (simp add: check_axis_def over_axis_def findExceeded_def Let_def plain_check_def)
qed

lemma findExceeded_append:
  "findExceeded (rs @ rs2) = (case findExceeded rs of Some r \<Rightarrow> Some r | None \<Rightarrow> findExceeded rs2)"
  by (induction rs) (auto simp: findExceeded_def)

lemma check_axes_over: "(\<forall>a \<in> set as. axis_ok a) \<Longrightarrow> findExceeded (fst (check_axes w as)) = first_over as"
proof (induction as arbitrary: w)
  case (Cons a as)
  then show ?case using check_axis_over [of a w]
    by (auto simp: findExceeded_append split: prod.splits option.splits) (metis fst_conv)+
qed (simp add: findExceeded_def)

lemma findExceeded_advisory: "findExceeded (fst (warn_tokens_check b w)) = None"
  by (simp add: warn_tokens_check_def findExceeded_def plain_check_def)

lemma findExceeded_checkLocked:
  assumes "budget_ok b"
  shows "findExceeded (fst (checkLocked now b)) = liveOverrunLocked now b"
proof -
  have ok: "\<forall>a \<in> set (axis_list now b). axis_ok a" using assms budget_ok_axes by blast
  show ?thesis using check_axes_over [OF ok, of "warned b"] findExceeded_advisory [of b]
    by (auto simp: checkLocked_def liveOverrunLocked_def findExceeded_append split: prod.splits option.splits)
      (metis fst_conv)+
qed

section \<open>Raises\<close>

text \<open>One axis of a raise: kept, or lifted from a positive cap to the ask bounded by the ceiling.\<close>

definition int_cap_raised :: "int \<Rightarrow> int \<Rightarrow> int \<Rightarrow> bool" where
  "int_cap_raised old cl new \<longleftrightarrow> new = old \<or> 0 < old \<and> old < new \<and> (0 < cl \<longrightarrow> new \<le> cl)"

definition f_cap_raised :: "f64 \<Rightarrow> f64 \<Rightarrow> f64 \<Rightarrow> bool" where
  "f_cap_raised old cl new \<longleftrightarrow>
     new = old \<or> f_lt f_zero old \<and> f_lt old new \<and> (f_lt f_zero cl \<longrightarrow> \<not> f_lt cl new)"

lemma bounded_int_le: "0 < cl \<Longrightarrow> bounded_int limit cl \<le> cl"
  by (simp add: bounded_int_def)

lemma bounded_f_le: "f_lt f_zero cl \<Longrightarrow> \<not> f_lt cl (bounded_f limit cl)"
  by (cases cl; cases limit) (auto simp: bounded_f_def f_zero_def)

lemmas raise_defs = raise_cost_def raise_tokens_def raise_iterations_def raise_duration_def unwarn_def

text \<open>What a clause of a raise leaves alone.\<close>

definition raise_frame :: "SharedBudget \<Rightarrow> SharedBudget \<Rightarrow> bool" where
  "raise_frame b b' \<longleftrightarrow> spent_of b' = spent_of b \<and> startedAt b' = startedAt b \<and> ceil b' = ceil b \<and>
     capImposed b' = capImposed b \<and> warnTokens b' = warnTokens b \<and> pending b' = pending b \<and>
     everRaised b' = everRaised b \<and> set (warned b') \<subseteq> set (warned b)"

lemma raise_axes_cases:
  assumes "raise_axes env ask b = (b', raised)"
  shows "raise_frame b b'"
    and "int_cap_raised (maxTokens b) (clTokens (ceil b)) (maxTokens b')"
    and "int_cap_raised (maxIterations b) (clIterations (ceil b)) (maxIterations b')"
    and "int_cap_raised (maxDuration b) (clDuration (ceil b)) (maxDuration b')"
    and "f_cap_raised (maxCostUSD b) (clCost (ceil b)) (maxCostUSD b')"
    and "\<not> raised \<Longrightarrow> b' = b"
proof -
  obtain b1 r1 where s1: "raise_cost (bounded_f (oMaxCostUSD ask) (clCost (ceil b))) b = (b1, r1)" by fastforce
  obtain b2 r2 where s2: "raise_tokens (bounded_int (oMaxTokens ask) (clTokens (ceil b))) b1 = (b2, r2)" by fastforce
  obtain b3 r3 where s3: "raise_iterations (bounded_int (oMaxIterations ask) (clIterations (ceil b))) b2 = (b3, r3)"
    by fastforce
  obtain b4 r4 where s4: "raise_duration env (oMaxDuration ask) b3 = (b4, r4)" by fastforce
  from assms s1 s2 s3 s4 have b': "b' = b4" "raised = (r1 \<or> r2 \<or> r3 \<or> r4)"
    by (simp_all add: raise_axes_def Let_def)
  have f1: "raise_frame b b1" "maxTokens b1 = maxTokens b" "maxIterations b1 = maxIterations b"
    "maxDuration b1 = maxDuration b" "f_cap_raised (maxCostUSD b) (clCost (ceil b)) (maxCostUSD b1)"
    "\<not> r1 \<Longrightarrow> b1 = b"
    using s1 by (auto simp: raise_cost_def unwarn_def raise_frame_def spent_of_def f_cap_raised_def bounded_f_le
        split: if_splits)
  have f2: "raise_frame b1 b2" "maxCostUSD b2 = maxCostUSD b1" "maxIterations b2 = maxIterations b1"
    "maxDuration b2 = maxDuration b1" "int_cap_raised (maxTokens b1) (clTokens (ceil b)) (maxTokens b2)"
    "\<not> r2 \<Longrightarrow> b2 = b1"
    using s2 by (auto simp: raise_tokens_def unwarn_def raise_frame_def spent_of_def int_cap_raised_def
        bounded_int_le split: if_splits)
  have f3: "raise_frame b2 b3" "maxCostUSD b3 = maxCostUSD b2" "maxTokens b3 = maxTokens b2"
    "maxDuration b3 = maxDuration b2" "int_cap_raised (maxIterations b2) (clIterations (ceil b)) (maxIterations b3)"
    "\<not> r3 \<Longrightarrow> b3 = b2"
    using s3 by (auto simp: raise_iterations_def unwarn_def raise_frame_def spent_of_def int_cap_raised_def
        bounded_int_le split: if_splits)
  have f4: "raise_frame b3 b4" "maxCostUSD b4 = maxCostUSD b3" "maxTokens b4 = maxTokens b3"
    "maxIterations b4 = maxIterations b3" "int_cap_raised (maxDuration b3) (clDuration (ceil b3)) (maxDuration b4)"
    "\<not> r4 \<Longrightarrow> b4 = b3"
    using s4 by (auto simp: raise_duration_def unwarn_def raise_frame_def spent_of_def int_cap_raised_def
        bounded_int_le split: if_splits option.splits)
  show fr: "raise_frame b b'" using f1(1) f2(1) f3(1) f4(1) by (auto simp: raise_frame_def b')
  have "ceil b3 = ceil b" using f1(1) f2(1) f3(1) by (simp add: raise_frame_def)
  then show "int_cap_raised (maxTokens b) (clTokens (ceil b)) (maxTokens b')"
    "int_cap_raised (maxIterations b) (clIterations (ceil b)) (maxIterations b')"
    "int_cap_raised (maxDuration b) (clDuration (ceil b)) (maxDuration b')"
    "f_cap_raised (maxCostUSD b) (clCost (ceil b)) (maxCostUSD b')" "\<not> raised \<Longrightarrow> b' = b"
    using f1 f2 f3 f4 by (simp_all add: b')
qed

lemma RaiseCaps_cases:
  assumes "RaiseCaps env now ask b = (b', eff, raised)"
  shows "int_cap_raised (maxTokens b) (clTokens (ceil b)) (maxTokens b')"
    and "int_cap_raised (maxIterations b) (clIterations (ceil b)) (maxIterations b')"
    and "int_cap_raised (maxDuration b) (clDuration (ceil b)) (maxDuration b')"
    and "f_cap_raised (maxCostUSD b) (clCost (ceil b)) (maxCostUSD b')"
    and "spent_of b' = spent_of b" "startedAt b' = startedAt b" "ceil b' = ceil b"
    and "set (warned b') \<subseteq> set (warned b)" "eff = capsLocked b'" "\<not> raised \<Longrightarrow> b' = b"
    and "raised \<Longrightarrow> pending b' = (if pending b \<noteq> None then liveOverrunLocked now b' else None)"
    and "raised \<Longrightarrow> everRaised b'"
proof -
  obtain b1 where ax: "raise_axes env ask b = (b1, raised)"
    and b': "b' = (if raised then b1\<lparr>everRaised := True,
               pending := (if pending b1 \<noteq> None then liveOverrunLocked now b1 else None)\<rparr> else b1)"
    and eff: "eff = capsLocked b'"
    using assms by (auto simp: RaiseCaps_def Let_def split: prod.splits)
  note c = raise_axes_cases [OF ax]
  from c(1) have fr: "spent_of b1 = spent_of b" "startedAt b1 = startedAt b" "ceil b1 = ceil b"
    "pending b1 = pending b" "set (warned b1) \<subseteq> set (warned b)"
    by (simp_all add: raise_frame_def)
  have live: "liveOverrunLocked now (b1\<lparr>everRaised := True, pending := e\<rparr>) = liveOverrunLocked now b1" for e
    by (simp add: liveOverrunLocked_def axis_list_def elapsed_def)
  show "int_cap_raised (maxTokens b) (clTokens (ceil b)) (maxTokens b')"
    "int_cap_raised (maxIterations b) (clIterations (ceil b)) (maxIterations b')"
    "int_cap_raised (maxDuration b) (clDuration (ceil b)) (maxDuration b')"
    "f_cap_raised (maxCostUSD b) (clCost (ceil b)) (maxCostUSD b')"
    "spent_of b' = spent_of b" "startedAt b' = startedAt b" "ceil b' = ceil b"
    "set (warned b') \<subseteq> set (warned b)" "eff = capsLocked b'" "\<not> raised \<Longrightarrow> b' = b"
    "raised \<Longrightarrow> pending b' = (if pending b \<noteq> None then liveOverrunLocked now b' else None)"
    "raised \<Longrightarrow> everRaised b'"
    using c fr eff by (auto simp: b' live spent_of_def)
qed

text \<open>The caps a raise leaves do not move when the same ask is replayed.\<close>

lemma raise_clauses_stop:
  "raise_cost a b = (b1, r) \<Longrightarrow> maxCostUSD b2 = maxCostUSD b1 \<Longrightarrow> raise_cost a b2 = (b2, False)"
  "raise_tokens n b = (b1, r) \<Longrightarrow> maxTokens b2 = maxTokens b1 \<Longrightarrow> raise_tokens n b2 = (b2, False)"
  "raise_iterations n b = (b1, r) \<Longrightarrow> maxIterations b2 = maxIterations b1 \<Longrightarrow> raise_iterations n b2 = (b2, False)"
  "raise_duration env s b = (b1, r) \<Longrightarrow> maxDuration b2 = maxDuration b1 \<Longrightarrow> ceil b2 = ceil b \<Longrightarrow>
     raise_duration env s b2 = (b2, False)"
  by (auto simp: raise_cost_def raise_tokens_def raise_iterations_def raise_duration_def unwarn_def
      split: if_splits option.splits)

lemma raise_clause_fields:
  "raise_cost a b = (b1, r) \<Longrightarrow> maxTokens b1 = maxTokens b \<and> maxIterations b1 = maxIterations b \<and>
     maxDuration b1 = maxDuration b \<and> ceil b1 = ceil b"
  "raise_tokens n b = (b1, r) \<Longrightarrow> maxCostUSD b1 = maxCostUSD b \<and> maxIterations b1 = maxIterations b \<and>
     maxDuration b1 = maxDuration b \<and> ceil b1 = ceil b"
  "raise_iterations n b = (b1, r) \<Longrightarrow> maxCostUSD b1 = maxCostUSD b \<and> maxTokens b1 = maxTokens b \<and>
     maxDuration b1 = maxDuration b \<and> ceil b1 = ceil b"
  "raise_duration env s b = (b1, r) \<Longrightarrow> maxCostUSD b1 = maxCostUSD b \<and> maxTokens b1 = maxTokens b \<and>
     maxIterations b1 = maxIterations b \<and> ceil b1 = ceil b"
  by (auto simp: raise_cost_def raise_tokens_def raise_iterations_def raise_duration_def unwarn_def
      split: if_splits option.splits)

lemma raise_axes_stop:
  assumes "raise_axes env ask b = (b', raised)" "maxCostUSD c = maxCostUSD b'" "maxTokens c = maxTokens b'"
    "maxIterations c = maxIterations b'" "maxDuration c = maxDuration b'" "ceil c = ceil b"
  shows "raise_axes env ask c = (c, False)"
proof -
  obtain b1 r1 where s1: "raise_cost (bounded_f (oMaxCostUSD ask) (clCost (ceil b))) b = (b1, r1)" by fastforce
  obtain b2 r2 where s2: "raise_tokens (bounded_int (oMaxTokens ask) (clTokens (ceil b))) b1 = (b2, r2)" by fastforce
  obtain b3 r3 where s3: "raise_iterations (bounded_int (oMaxIterations ask) (clIterations (ceil b))) b2 = (b3, r3)"
    by fastforce
  obtain b4 r4 where s4: "raise_duration env (oMaxDuration ask) b3 = (b4, r4)" by fastforce
  from assms(1) s1 s2 s3 s4 have "b' = b4" by (simp add: raise_axes_def Let_def)
  note f = raise_clause_fields(1) [OF s1] raise_clause_fields(2) [OF s2] raise_clause_fields(3) [OF s3]
    raise_clause_fields(4) [OF s4]
  have stops: "raise_cost (bounded_f (oMaxCostUSD ask) (clCost (ceil b))) c = (c, False)"
    "raise_tokens (bounded_int (oMaxTokens ask) (clTokens (ceil b))) c = (c, False)"
    "raise_iterations (bounded_int (oMaxIterations ask) (clIterations (ceil b))) c = (c, False)"
    "raise_duration env (oMaxDuration ask) c = (c, False)"
    using f assms(2-6) \<open>b' = b4\<close>
    by (auto intro: raise_clauses_stop(1) [OF s1] raise_clauses_stop(2) [OF s2] raise_clauses_stop(3) [OF s3]
        raise_clauses_stop(4) [OF s4])
  with assms(6) show ?thesis by (simp add: raise_axes_def)
qed

lemma RaiseCaps_replay:
  assumes "RaiseCaps env now ask b = (b', eff, raised)"
  shows "RaiseCaps env now' ask b' = (b', eff, False)"
proof -
  obtain b1 where ax: "raise_axes env ask b = (b1, raised)"
    and b': "b' = (if raised then b1\<lparr>everRaised := True,
               pending := (if pending b1 \<noteq> None then liveOverrunLocked now b1 else None)\<rparr> else b1)"
    using assms by (auto simp: RaiseCaps_def Let_def split: prod.splits)
  have "raise_axes env ask b' = (b', False)"
    using RaiseCaps_cases(7) [OF assms] by (intro raise_axes_stop [OF ax]) (simp_all add: b')
  with RaiseCaps_cases(9) [OF assms] show ?thesis by (simp add: RaiseCaps_def)
qed

section \<open>The verdict of a boundary\<close>

text \<open>
  The abstract gate: the first axis at its cap, else the first at nine tenths of it. It reads the
  axes only, never the warnings already emitted.
\<close>

definition hard_axis :: "string \<times> f64 \<times> f64 \<Rightarrow> bool" where
  "hard_axis axis = (case axis of (ax, used, limit) \<Rightarrow>
     \<not> f_le limit f_zero \<and> f_le budgetHardThreshold (f_div used limit))"

definition full_axis :: "string \<times> f64 \<times> f64 \<Rightarrow> bool" where
  "full_axis axis = (case axis of (ax, used, limit) \<Rightarrow>
     \<not> f_le limit f_zero \<and> f_le f_one (f_div used limit))"

definition flag_exceeded :: "string \<times> f64 \<times> f64 \<Rightarrow> check_result" where
  "flag_exceeded axis = (case axis of (ax, used, limit) \<Rightarrow> (plain_check ax used limit)\<lparr>crExceeded := True\<rparr>)"

definition flag_hard :: "string \<times> f64 \<times> f64 \<Rightarrow> check_result" where
  "flag_hard axis = (case axis of (ax, used, limit) \<Rightarrow> (plain_check ax used limit)\<lparr>crHardLimited := True\<rparr>)"

lemma threshold_values:
  "f_one = FFin False 1" "budgetHardThreshold = FFin False (8106479329266893 / 9007199254740992)"
  "budgetWarningThreshold = FFin False (3602879701896397 / 4503599627370496)"
  by (simp_all add: f_one_def budgetHardThreshold_def budgetWarningThreshold_def float_eval)

lemma hard_below_one: "f_le f_one x \<Longrightarrow> f_le budgetHardThreshold x"
  by (cases x) (auto simp: threshold_values f_le_def)

lemma full_is_hard: "full_axis a \<Longrightarrow> hard_axis a"
  by (auto simp: full_axis_def hard_axis_def hard_below_one split: prod.splits)

lemma find_check_axis:
  "find crExceeded (fst (check_axis w a)) = (if full_axis a then Some (flag_exceeded a) else None) \<and>
   find crHardLimited (fst (check_axis w a)) = (if hard_axis a \<and> \<not> full_axis a then Some (flag_hard a) else None)"
proof (cases a)
  case (fields ax used limit)
  define r where "r = f_div used limit"
  show ?thesis
    by (cases "f_le limit f_zero"; cases "f_le f_one r"; cases "f_le budgetHardThreshold r")
      (simp_all add: fields check_axis_def full_axis_def hard_axis_def flag_exceeded_def flag_hard_def
        plain_check_def hard_below_one flip: r_def)
qed

lemma find_append: "find P (xs @ ys) = (case find P xs of Some x \<Rightarrow> Some x | None \<Rightarrow> find P ys)"
  by (induction xs) auto

lemma find_check_axes:
  "find crExceeded (fst (check_axes w as)) = map_option flag_exceeded (find full_axis as) \<and>
   find crHardLimited (fst (check_axes w as)) =
     map_option flag_hard (find (\<lambda>a. hard_axis a \<and> \<not> full_axis a) as)"
proof (induction as arbitrary: w)
  case (Cons a as)
  obtain rs w1 where a: "check_axis w a = (rs, w1)" by fastforce
  obtain rs2 w2 where as: "check_axes w1 as = (rs2, w2)" by fastforce
  from find_check_axis [of w a] Cons.IH [of w1] a as show ?case by (simp add: find_append)
qed simp

lemma find_checkLocked:
  "findExceeded (fst (checkLocked now b)) = map_option flag_exceeded (find full_axis (axis_list now b))"
  "findHardLimited (fst (checkLocked now b)) =
     map_option flag_hard (find (\<lambda>a. hard_axis a \<and> \<not> full_axis a) (axis_list now b))"
proof -
  obtain rs w1 where a: "check_axes (warned b) (axis_list now b) = (rs, w1)" by fastforce
  obtain rs2 w2 where t: "warn_tokens_check b w1 = (rs2, w2)" by fastforce
  then have quiet: "find crExceeded rs2 = None" "find crHardLimited rs2 = None"
    by (auto simp: warn_tokens_check_def plain_check_def split: if_splits)
  show "findExceeded (fst (checkLocked now b)) = map_option flag_exceeded (find full_axis (axis_list now b))"
    using find_check_axes [of "warned b" "axis_list now b"] a t quiet
    by (simp add: checkLocked_def findExceeded_def find_append split: option.splits)
  show "findHardLimited (fst (checkLocked now b)) =
     map_option flag_hard (find (\<lambda>a. hard_axis a \<and> \<not> full_axis a) (axis_list now b))"
    using find_check_axes [of "warned b" "axis_list now b"] a t quiet
    by (simp add: checkLocked_def findHardLimited_def find_append split: option.splits)
qed

definition gate :: "budget_env \<Rightarrow> int \<Rightarrow> SharedBudget \<Rightarrow> budget_verdict" where
  "gate be now b =
     (case find full_axis (axis_list now b) of
        Some a \<Rightarrow> graceOrFailBudget be now b (flag_exceeded a)
      | None \<Rightarrow>
          (case find hard_axis (axis_list now b) of
             Some a \<Rightarrow> (if bePausePolicy be then PauseCap (flag_hard a) else FailHardLimit (flag_hard a))
           | None \<Rightarrow> Proceed))"

lemma find_hard_only:
  "find P xs = None \<Longrightarrow> find (\<lambda>a. Q a \<and> \<not> P a) xs = find Q xs"
  by (induction xs) (auto split: if_splits)

lemma exitGraceRoom_warned [simp]: "exitGraceRoom now r (b\<lparr>warned := w\<rparr>) = exitGraceRoom now r b"
  by (simp add: exitGraceRoom_def axis_list_def ceiling_list_def elapsed_def)

lemma graceOrFail_warned [simp]: "graceOrFailBudget be now (b\<lparr>warned := w\<rparr>) exc = graceOrFailBudget be now b exc"
  by (simp add: graceOrFailBudget_def withinBudgetGrace_def withinSharedBudgetGrace_def)

lemma checkBudget_is_gate: "fst (checkBudgetBeforeExec be False now (Some b)) = gate be now b"
proof -
  obtain rs b1 where c: "checkLocked now b = (rs, b1)" by fastforce
  obtain w where w: "b1 = b\<lparr>warned := w\<rparr>" using checkLocked_keeps [OF c] by blast
  show ?thesis
    using find_checkLocked [of now b] find_hard_only [of full_axis "axis_list now b" hard_axis] c
    by (cases "find full_axis (axis_list now b)"; cases "find hard_axis (axis_list now b)")
      (simp_all add: checkBudgetBeforeExec_def Check_def gate_def w)
qed

lemma find_witness: "find P xs = Some a \<Longrightarrow> a \<in> set xs \<and> P a"
  by (auto simp: find_Some_iff)

lemma gate_Proceed: "gate be now b = Proceed \<longleftrightarrow> (\<forall>a \<in> set (axis_list now b). \<not> hard_axis a)"
proof (cases "find full_axis (axis_list now b)")
  case None
  then have "gate be now b = (case find hard_axis (axis_list now b) of
      Some a \<Rightarrow> (if bePausePolicy be then PauseCap (flag_hard a) else FailHardLimit (flag_hard a)) | None \<Rightarrow> Proceed)"
    by (simp add: gate_def)
  then show ?thesis
    using find_witness [of hard_axis "axis_list now b"]
    by (cases "find hard_axis (axis_list now b)") (simp add: find_None_iff, auto)
next
  case (Some a)
  from find_witness [OF this] have "a \<in> set (axis_list now b)" "hard_axis a" by (simp_all add: full_is_hard)
  moreover have "gate be now b \<noteq> Proceed"
    using Some by (simp add: gate_def graceOrFailBudget_def failBudgetExceeded_def)
  ultimately show ?thesis by blast
qed

text \<open>The room of a grace: every capped axis is below its cap stretched by the ratio, within the ceiling.\<close>

definition in_grace :: "f64 \<Rightarrow> (string \<times> f64 \<times> f64) \<times> f64 \<Rightarrow> bool" where
  "in_grace ratio = (\<lambda>((ax, used, limit), cl).
     f_le limit f_zero \<or> \<not> f_le (bounded_f (f_mul limit (f_add f_one ratio)) cl) used)"

lemma grace_axes_room:
  "grace_axes ratio graced as = (g, ok) \<Longrightarrow> ok \<longleftrightarrow> (\<forall>x \<in> set as. in_grace ratio x)"
  by (induction ratio graced as rule: grace_axes.induct) (auto simp: in_grace_def split: if_splits)

lemma exitGraceRoom_room:
  "snd (exitGraceRoom now ratio b) \<Longrightarrow> x \<in> set (zip (axis_list now b) (ceiling_list b)) \<Longrightarrow> in_grace ratio x"
  by (auto simp: exitGraceRoom_def dest!: grace_axes_room split: prod.splits)

lemma gate_Graced:
  assumes "gate be now b = Graced exc"
  shows "beGuardsOn be" "\<not> beBranchLocal be" "f_lt f_zero (beGraceRatio be)"
    "\<exists>a \<in> set (axis_list now b). full_axis a \<and> exc = flag_exceeded a"
    "\<forall>x \<in> set (zip (axis_list now b) (ceiling_list b)). in_grace (beGraceRatio be) x"
proof -
  obtain a where a: "find full_axis (axis_list now b) = Some a" "withinBudgetGrace be now b" "exc = flag_exceeded a"
    using assms by (auto simp: gate_def graceOrFailBudget_def failBudgetExceeded_def split: option.splits if_splits)
  then have "a \<in> set (axis_list now b)" "full_axis a" by (auto simp: find_Some_iff)
  with a exitGraceRoom_room [of now "beGraceRatio be" b] show "beGuardsOn be" "\<not> beBranchLocal be"
    "f_lt f_zero (beGraceRatio be)"
    "\<exists>a \<in> set (axis_list now b). full_axis a \<and> exc = flag_exceeded a"
    "\<forall>x \<in> set (zip (axis_list now b) (ceiling_list b)). in_grace (beGraceRatio be) x"
    by (auto simp: withinBudgetGrace_def withinSharedBudgetGrace_def)
qed

section \<open>Resuming\<close>

text \<open>Two budgets with the same caps and consumption pass the same gate, at instants equally far from their starts.\<close>

definition same_standing :: "int \<Rightarrow> SharedBudget \<Rightarrow> int \<Rightarrow> SharedBudget \<Rightarrow> bool" where
  "same_standing now b now' b' \<longleftrightarrow> axis_list now b = axis_list now' b' \<and> ceil b = ceil b'"

lemma same_standing_gate:
  assumes "same_standing now b now' b'"
  shows "gate be now b = gate be now' b'" and "exitGraceRoom now r b = exitGraceRoom now' r b'"
  using assms by (simp_all add: same_standing_def gate_def graceOrFailBudget_def withinBudgetGrace_def
      withinSharedBudgetGrace_def exitGraceRoom_def ceiling_list_def cong: option.case_cong)

lemma new_budget_fields:
  assumes "newSharedBudget env t (Some d) = Some b" "newSharedBudget env t' (Some d) = Some b'"
  shows "b' = b\<lparr>startedAt := t'\<rparr>" "startedAt b = t" "everRaised b = False" "pending b = None" "warned b = []"
  using assms by (auto simp: newSharedBudget_def Let_def split: if_splits)

lemma restored_standing:
  assumes new: "newSharedBudget env t (Some d) = Some b0" "newSharedBudget env t' (Some d) = Some c0"
    and caps: "caps_of b = caps_of b0" and age: "0 \<le> elapsed now b"
    and clock: "elapsed now b = 0 \<longrightarrow> now' = t'"
  shows "same_standing now b now' (Restore now' (Snapshot now b) c0)"
  using caps new_budget_fields [OF new] age clock
  by (auto simp: caps_of_def same_standing_def axis_list_def Restore_def Snapshot_def elapsed_def)

lemma Snapshot_Restore:
  "0 \<le> coElapsed c \<Longrightarrow> coElapsed c = 0 \<longrightarrow> startedAt b = now \<Longrightarrow> Snapshot now (Restore now c b) = c"
  by (auto simp: Snapshot_def Restore_def elapsed_def)

text \<open>The verdict before a resume, as the gate: a granted grace lets the resume go on to the boundary.\<close>

fun without_grace :: "budget_verdict \<Rightarrow> budget_verdict" where
  "without_grace (Graced exc) = Proceed"
| "without_grace v = v"

lemma preflight_is_gate:
  assumes "\<not> beBranchLocal be"
  shows "failSpentBudgetBeforeResume env be now cp None (Some b0) = without_grace (gate be now (Restore now cp b0))"
proof -
  define b where "b = Restore now cp b0"
  obtain rs b1 where c: "checkLocked now b = (rs, b1)" by fastforce
  obtain w where w: "b1 = b\<lparr>warned := w\<rparr>" using checkLocked_keeps [OF c] by blast
  have grace: "withinSharedBudgetGrace be now (b\<lparr>warned := w\<rparr>) = withinSharedBudgetGrace be now b"
    by (simp add: withinSharedBudgetGrace_def)
  show ?thesis unfolding b_def [symmetric]
    using find_checkLocked [of now b] find_hard_only [of full_axis "axis_list now b" hard_axis] c assms
    by (cases "find full_axis (axis_list now b)"; cases "find hard_axis (axis_list now b)")
      (simp_all add: failSpentBudgetBeforeResume_def Check_def gate_def w graceOrFailBudget_def
        withinBudgetGrace_def failBudgetExceeded_def grace flip: b_def)
qed

section \<open>Ceilings\<close>

lemma clamp_int_spec: "clamp_int v mx = (if mx \<le> 0 then v else if v \<le> 0 then mx else min v mx)"
  by (auto simp: clamp_int_def)

lemma clamp_int_idem [simp]: "clamp_int (clamp_int v mx) mx = clamp_int v mx"
  by (auto simp: clamp_int_def)

text \<open>A limit the chain of outer budgets is allowed to leave: positive and under every positive outer one.\<close>

definition under_all :: "int \<Rightarrow> int list \<Rightarrow> bool" where
  "under_all v mxs \<longleftrightarrow> (\<forall>mx \<in> set mxs. 0 < mx \<longrightarrow> 0 < v \<and> v \<le> mx)"

lemma clamp_pair:
  "under_all c mxs \<Longrightarrow> under_all (clamp_int c mx) (mxs @ [mx]) \<and> under_all (clamp_int v (clamp_int c mx)) (mxs @ [mx])"
  by (auto simp: under_all_def clamp_int_def)

lemma clamp_chain:
  "under_all (bMaxTokens (foldl (ClampToCeiling env osenv) b outers)) (map bMaxTokens outers) \<and>
   under_all (clTokens (bCeiling (foldl (ClampToCeiling env osenv) b outers))) (map bMaxTokens outers) \<and>
   under_all (bMaxIterations (foldl (ClampToCeiling env osenv) b outers)) (map bMaxIterations outers) \<and>
   under_all (clIterations (bCeiling (foldl (ClampToCeiling env osenv) b outers))) (map bMaxIterations outers) \<and>
   under_all (bMaxParallelBranches (foldl (ClampToCeiling env osenv) b outers)) (map bMaxParallelBranches outers) \<and>
   under_all (clBranches (bCeiling (foldl (ClampToCeiling env osenv) b outers))) (map bMaxParallelBranches outers)"
proof (induction outers rule: rev_induct)
  case Nil
  then show ?case by (simp add: under_all_def)
next
  case (snoc o1 outers)
  then show ?case
    using clamp_pair by (simp add: ClampToCeiling_def tighten_ceiling_def Let_def)
qed

end
