(* ===== verification/BudgetReach.thy ===== *)
theory BudgetReach
  imports RunBudgetOk
begin

text \<open>
  The life of one run's budget: declared, used by the node boundaries and branches, raised by the
  operator, restored by a resume. The reachable budgets and what holds of each of them.
\<close>

section \<open>Reachable budgets\<close>

definition cost_ok :: "f64 \<Rightarrow> bool" where
  "cost_ok c \<longleftrightarrow> is_f64 c \<and> f_fin c"

fun op_ok :: "budget_op \<Rightarrow> bool" where
  "op_ok (OpRecord now sp ci) \<longleftrightarrow> is_f64 (spCostUSD sp) \<and> 0 \<le> spTokens sp \<and> 0 \<le> spUnreported sp"
| "op_ok p \<longleftrightarrow> True"

definition declared_ok :: "Budget \<Rightarrow> bool" where
  "declared_ok d \<longleftrightarrow> cost_ok (bMaxCostUSD d) \<and> cost_ok (clCost (bCeiling d)) \<and> fits64 (bMaxTokens d) \<and>
     fits64 (bMaxIterations d) \<and> fits64 (clTokens (bCeiling d)) \<and> fits64 (clIterations (bCeiling d)) \<and>
     fits64 (clDuration (bCeiling d))"

definition ask_ok :: "BudgetOverrides \<Rightarrow> bool" where
  "ask_ok ask \<longleftrightarrow> cost_ok (oMaxCostUSD ask) \<and> fits64 (oMaxTokens ask) \<and> fits64 (oMaxIterations ask)"

definition consumption_ok :: "consumption \<Rightarrow> bool" where
  "consumption_ok c \<longleftrightarrow> is_f64 (coCost c) \<and> f_le f_zero (coCost c)"

inductive budget_reach :: "(string \<Rightarrow> string) \<Rightarrow> Budget \<Rightarrow> SharedBudget \<Rightarrow> bool"
  for env :: "string \<Rightarrow> string" and d :: Budget where
  declared: "newSharedBudget env now (Some d) = Some b \<Longrightarrow> budget_reach env d b"
| used: "budget_reach env d b \<Longrightarrow> op_ok p \<Longrightarrow> budget_step p b = (rs, b') \<Longrightarrow> budget_reach env d b'"
| raised: "budget_reach env d b \<Longrightarrow> ask_ok ask \<Longrightarrow> RaiseCaps env now ask b = (b', eff, r) \<Longrightarrow> budget_reach env d b'"
| restored: "budget_reach env d b \<Longrightarrow> consumption_ok c \<Longrightarrow> budget_reach env d (Restore now c b)"

inductive_cases budget_reach_last: "budget_reach env d b"

section \<open>Numbers stay in range\<close>

lemma components_range: "components d s = Some r \<Longrightarrow> 0 \<le> d \<Longrightarrow> d \<le> 2 ^ 63 \<Longrightarrow> 0 \<le> r \<and> r \<le> 2 ^ 63"
proof (induction d s rule: components.induct)
  case (1 d s)
  show ?case
  proof (cases "s = []")
    case True
    with 1 show ?thesis by (simp add: components.simps)
  next
    case False
    with "1.prems"(1) obtain ds s1 fs s2 u rest v un f k w where
      "ds = takeWhile is_digit s" "s1 = dropWhile is_digit s" "after_int s1 = (fs, s2)"
      "u = takeWhile unit_char s2" "rest = dropWhile unit_char s2"
      "\<not> (\<not> (hd s = CHR ''.'' \<or> is_digit (hd s)) \<or> ds = [] \<and> fs = [] \<or> u = [])"
      "leading_int 0 ds = Some v" "unit_of u = Some un" "leading_fraction 0 0 fs = (f, k)" "component v f k un = Some w"
      "\<not> 2 ^ 63 < (d + w) mod 2 ^ 64" "components ((d + w) mod 2 ^ 64) rest = Some r"
      by (subst (asm) components.simps) (simp add: Let_def split: prod.splits if_splits option.splits)
    note eqs = this
    have "0 \<le> (d + w) mod 2 ^ 64 \<Longrightarrow> (d + w) mod 2 ^ 64 \<le> 2 ^ 63 \<Longrightarrow> 0 \<le> r \<and> r \<le> 2 ^ 63"
      by (rule "1.IH" [of ds s1 "(fs, s2)" fs s2 u rest "Some v" "Some un" v un f k w "(d + w) mod 2 ^ 64"])
        (use False eqs in auto)
    then show ?thesis using eqs(11) by simp
  qed
qed

lemma parse_duration_range: "parse_duration s = Some r \<Longrightarrow> \<bar>r\<bar> \<le> 2 ^ 63"
proof -
  assume "parse_duration s = Some r"
  then consider "r = 0" | t q where "components 0 t = Some q" "r = q \<or> r = - q"
    by (auto simp: parse_duration_def Let_def split: prod.splits if_splits option.splits)
  then show ?thesis by cases (auto dest: components_range)
qed

lemma read_duration_range: "read_duration env s = Some r \<Longrightarrow> fits64 r"
  using parse_duration_range [of _ r] by (fastforce simp: read_duration_def fits64_def)

section \<open>Invariants\<close>

lemma f_add_nonneg: "f_le f_zero x \<Longrightarrow> f_lt f_zero y \<Longrightarrow> f_le f_zero (f_add x y)"
proof (cases x; cases y)
  fix s a t c
  assume xy: "x = FFin s a" "y = FFin t c" and pos: "f_le f_zero x" "f_lt f_zero y"
  then have "0 < a + c" by (auto simp: f_le_def f_zero_def)
  then have p: "0 < \<bar>a + c\<bar>" by simp
  let ?u = "f_unit \<bar>a + c\<bar>"
  have "0 \<le> round_half_even (\<bar>a + c\<bar> / pow2 ?u)" by (rule rhe_ge_int) (simp add: less_imp_le)
  then have "0 \<le> (of_int (round_half_even (\<bar>a + c\<bar> / pow2 ?u)) * pow2 ?u :: rat)"
    by (intro mult_nonneg_nonneg) (simp_all add: less_imp_le)
  moreover define v where "v = (of_int (round_half_even (\<bar>a + c\<bar> / pow2 ?u)) * pow2 ?u :: rat)"
  ultimately have "0 < v \<or> 0 = v" by linarith
  moreover have "f_add x y = (if pow2 1024 \<le> v then FInf False else FFin False v)"
    using \<open>0 < a + c\<close> xy by (simp add: fround_eq v_def Let_def)
  ultimately show ?thesis by (auto simp: f_le_def f_zero_def)
qed (auto simp: f_le_def f_zero_def)

lemma budget_ok_cong:
  "costUsed b' = costUsed b \<Longrightarrow> caps_of b' = caps_of b \<Longrightarrow> budget_ok b' = budget_ok b"
  by (simp add: budget_ok_def caps_of_def)

lemma budget_step_cost:
  assumes "budget_step p b = (rs, b')"
  shows "costUsed b' = (case p of OpRecord now sp ci \<Rightarrow> costUsed (book_spend sp ci b) | _ \<Rightarrow> costUsed b)"
proof (cases p)
  case (OpCheck now)
  with assms have "b' = b\<lparr>warned := warned b'\<rparr>" by (simp add: Check_def checkLocked_keeps)
  then obtain w where "b' = b\<lparr>warned := w\<rparr>" by blast
  with OpCheck show ?thesis by simp
next
  case (OpRecord now sp ci)
  with assms have "b' = (book_spend sp ci b)\<lparr>warned := warned b'\<rparr>" by (simp add: recordUsage_keeps)
  then obtain w where "b' = (book_spend sp ci b)\<lparr>warned := w\<rparr>" by blast
  with OpRecord show ?thesis by simp
next
  case (OpUnreported n)
  with assms obtain w where "b' = b\<lparr>unreportedCalls := unreportedCalls b + max n 0, warned := w\<rparr>"
    using noteUnreported_keeps [of n b rs b'] by auto
  with OpUnreported show ?thesis by simp
qed (use assms in \<open>auto simp: noteExceeded_def takeExceeded_def\<close>)

lemma budget_ok_step:
  assumes "budget_step p b = (rs, b')" "op_ok p" "budget_ok b"
  shows "budget_ok b'"
proof -
  have "is_f64 (costUsed b') \<and> f_le f_zero (costUsed b')"
    using assms(2,3) budget_step_cost [OF assms(1)]
    by (cases p) (auto simp: budget_ok_def book_spend_fields is_f64_ops f_add_nonneg)
  with assms(3) budget_step_books(4) [OF assms(1)] show ?thesis by (simp add: budget_ok_def caps_of_def)
qed

text \<open>The caps of a reachable budget, against the declaration and the ceiling it was made with.\<close>

definition cap_held :: "int \<Rightarrow> int \<Rightarrow> int \<Rightarrow> bool" where
  "cap_held declared cl cap \<longleftrightarrow> declared \<le> cap \<and> (declared \<le> 0 \<longrightarrow> cap = declared) \<and> (0 < cl \<longrightarrow> cap \<le> max declared cl)"

lemma cap_held_refl: "cap_held n cl n"
  by (simp add: cap_held_def)

lemma cap_held_raise: "cap_held n cl c \<Longrightarrow> int_cap_raised c cl c' \<Longrightarrow> cap_held n cl c'"
  by (auto simp: cap_held_def int_cap_raised_def)

lemma bounded_in: "bounded_int n cl \<in> {n, cl}" "bounded_f x c \<in> {x, c}"
  by (simp_all add: bounded_int_def bounded_f_def)

lemma raise_clause_values:
  "raise_cost a b = (b1, r) \<Longrightarrow> maxCostUSD b1 \<in> {maxCostUSD b, a}"
  "raise_tokens n b = (b1, r) \<Longrightarrow> maxTokens b1 \<in> {maxTokens b, n}"
  "raise_iterations n b = (b1, r) \<Longrightarrow> maxIterations b1 \<in> {maxIterations b, n}"
  "raise_duration env s b = (b1, r) \<Longrightarrow> fits64 (maxDuration b) \<Longrightarrow> fits64 (clDuration (ceil b)) \<Longrightarrow>
     fits64 (maxDuration b1)"
proof -
  show "raise_cost a b = (b1, r) \<Longrightarrow> maxCostUSD b1 \<in> {maxCostUSD b, a}"
    by (auto simp: raise_cost_def unwarn_def split: if_splits)
  show "raise_tokens n b = (b1, r) \<Longrightarrow> maxTokens b1 \<in> {maxTokens b, n}"
    by (auto simp: raise_tokens_def unwarn_def split: if_splits)
  show "raise_iterations n b = (b1, r) \<Longrightarrow> maxIterations b1 \<in> {maxIterations b, n}"
    by (auto simp: raise_iterations_def unwarn_def split: if_splits)
  show "raise_duration env s b = (b1, r) \<Longrightarrow> fits64 (maxDuration b) \<Longrightarrow> fits64 (clDuration (ceil b)) \<Longrightarrow>
      fits64 (maxDuration b1)"
    by (auto simp: raise_duration_def unwarn_def bounded_int_def dest: read_duration_range
        split: if_splits option.splits)
qed

lemma RaiseCaps_values:
  assumes "RaiseCaps env now ask b = (b', eff, r)"
  shows "maxCostUSD b' \<in> {maxCostUSD b, oMaxCostUSD ask, clCost (ceil b)}"
    "maxTokens b' \<in> {maxTokens b, oMaxTokens ask, clTokens (ceil b)}"
    "maxIterations b' \<in> {maxIterations b, oMaxIterations ask, clIterations (ceil b)}"
    "fits64 (maxDuration b) \<Longrightarrow> fits64 (clDuration (ceil b)) \<Longrightarrow> fits64 (maxDuration b')"
proof -
  obtain b1 r1 where s1: "raise_cost (bounded_f (oMaxCostUSD ask) (clCost (ceil b))) b = (b1, r1)" by fastforce
  obtain b2 r2 where s2: "raise_tokens (bounded_int (oMaxTokens ask) (clTokens (ceil b))) b1 = (b2, r2)" by fastforce
  obtain b3 r3 where s3: "raise_iterations (bounded_int (oMaxIterations ask) (clIterations (ceil b))) b2 = (b3, r3)"
    by fastforce
  obtain b4 r4 where s4: "raise_duration env (oMaxDuration ask) b3 = (b4, r4)" by fastforce
  have b': "maxCostUSD b' = maxCostUSD b4" "maxTokens b' = maxTokens b4" "maxIterations b' = maxIterations b4"
    "maxDuration b' = maxDuration b4"
  proof -
    have "raise_axes env ask b = (b4, r1 \<or> r2 \<or> r3 \<or> r4)" using s1 s2 s3 s4 by (simp add: raise_axes_def)
    then show "maxCostUSD b' = maxCostUSD b4" "maxTokens b' = maxTokens b4" "maxIterations b' = maxIterations b4"
      "maxDuration b' = maxDuration b4"
      using assms by (cases "r1 \<or> r2 \<or> r3 \<or> r4"; fastforce simp: RaiseCaps_def Let_def)+
  qed
  note f1 = raise_clause_fields(1) [OF s1] and f2 = raise_clause_fields(2) [OF s2]
    and f3 = raise_clause_fields(3) [OF s3] and f4 = raise_clause_fields(4) [OF s4]
  have "maxCostUSD b' = maxCostUSD b1" using f2 f3 f4 b'(1) by simp
  then show "maxCostUSD b' \<in> {maxCostUSD b, oMaxCostUSD ask, clCost (ceil b)}"
    using raise_clause_values(1) [OF s1] bounded_in(2) [of "oMaxCostUSD ask" "clCost (ceil b)"] by fastforce
  have "maxTokens b' = maxTokens b2" "maxTokens b1 = maxTokens b" using f1 f3 f4 b'(2) by simp_all
  then show "maxTokens b' \<in> {maxTokens b, oMaxTokens ask, clTokens (ceil b)}"
    using raise_clause_values(2) [OF s2] bounded_in(1) [of "oMaxTokens ask" "clTokens (ceil b)"] by fastforce
  have "maxIterations b' = maxIterations b3" "maxIterations b2 = maxIterations b" using f1 f2 f4 b'(3) by simp_all
  then show "maxIterations b' \<in> {maxIterations b, oMaxIterations ask, clIterations (ceil b)}"
    using raise_clause_values(3) [OF s3] bounded_in(1) [of "oMaxIterations ask" "clIterations (ceil b)"] by fastforce
  show "fits64 (maxDuration b')" if "fits64 (maxDuration b)" "fits64 (clDuration (ceil b))"
    using raise_clause_values(4) [OF s4] that f1 f2 f3 b'(4) by simp
qed

definition ceiling_ok :: "BudgetCeiling \<Rightarrow> bool" where
  "ceiling_ok c \<longleftrightarrow> cost_ok (clCost c) \<and> fits64 (clTokens c) \<and> fits64 (clIterations c) \<and> fits64 (clDuration c)"

lemma zero_cost_ok [simp]: "is_f64 f_zero" "f_le f_zero f_zero"
  by (auto simp: f_zero_def f_le_def intro!: exI [of _ 0])

lemma fits64_0 [simp]: "fits64 0"
  by (simp add: fits64_def)

lemma new_budget_ok:
  assumes "newSharedBudget env now (Some d) = Some b" "declared_ok d"
  shows "budget_ok b \<and> ceiling_ok (ceil b)"
proof -
  define dur where "dur = (if bMaxDuration d \<noteq> [] then
      (case read_duration env (bMaxDuration d) of Some r \<Rightarrow> r | None \<Rightarrow> 0) else 0)"
  have dur: "fits64 dur"
    by (auto simp: dur_def dest: read_duration_range split: option.splits)
  show ?thesis
    using assms dur
    by (auto simp: newSharedBudget_def declared_ok_def cost_ok_def budget_ok_def ceiling_ok_def
        simp flip: dur_def split: if_splits)
qed

lemma budget_reach_inv:
  assumes "budget_reach env d b" "declared_ok d"
  shows "budget_ok b \<and> ceiling_ok (ceil b) \<and>
    (\<exists>t b0. newSharedBudget env t (Some d) = Some b0 \<and> ceil b = ceil b0 \<and>
      cap_held (maxTokens b0) (clTokens (ceil b0)) (maxTokens b) \<and>
      cap_held (maxIterations b0) (clIterations (ceil b0)) (maxIterations b) \<and>
      cap_held (maxDuration b0) (clDuration (ceil b0)) (maxDuration b))"
  using assms
proof (induction rule: budget_reach.induct)
  case (declared now b)
  then show ?case using new_budget_ok cap_held_refl by blast
next
  case (used b p rs b')
  then have "caps_of b' = caps_of b" "budget_ok b'"
    by (simp_all add: budget_step_books(4) budget_ok_step)
  with used.IH used.prems show ?case by (simp add: caps_of_def)
next
  case (raised b ask now b' eff r)
  note c = RaiseCaps_cases [OF raised.hyps(3)] and v = RaiseCaps_values [OF raised.hyps(3)]
  from raised.IH raised.prems have ok: "budget_ok b" "ceiling_ok (ceil b)" by simp_all
  then have "budget_ok b'"
    using v c(5) raised.hyps(2) by (auto simp: budget_ok_def ceiling_ok_def ask_ok_def cost_ok_def spent_of_def)
  moreover obtain t b0 where "newSharedBudget env t (Some d) = Some b0" "ceil b = ceil b0"
    "cap_held (maxTokens b0) (clTokens (ceil b0)) (maxTokens b)"
    "cap_held (maxIterations b0) (clIterations (ceil b0)) (maxIterations b)"
    "cap_held (maxDuration b0) (clDuration (ceil b0)) (maxDuration b)"
    using raised.IH raised.prems by blast
  ultimately show ?case
    using c(1-3,7) ok by (intro conjI exI [of _ t] exI [of _ b0]) (auto intro: cap_held_raise)
next
  case (restored b c now)
  then show ?case by (auto simp: Restore_def budget_ok_def consumption_ok_def)
qed

text \<open>A run of operations and the chain of raises stays reachable.\<close>

lemma budget_reach_run:
  "budget_reach env d b \<Longrightarrow> \<forall>p \<in> set ops. op_ok p \<Longrightarrow> budget_reach env d (snd (budget_run ops b))"
proof (induction ops arbitrary: b)
  case (Cons p ops)
  have "budget_step p b = (fst (budget_step p b), snd (budget_step p b))" by simp
  with Cons.prems have "budget_reach env d (snd (budget_step p b))"
    using budget_reach.used [of env d b p "fst (budget_step p b)" "snd (budget_step p b)"] by simp
  from Cons.IH [OF this] Cons.prems(2) show ?case unfolding budget_run_Cons by simp
qed simp

end
