(* ===== verification/BudgetClaims.thy ===== *)
theory BudgetClaims
  imports BudgetReach
begin

text \<open>
  The properties of the run budget, each over the definitions of \<open>RunBudget\<close> and proved from the
  lemmas of \<open>RunBudgetOk\<close> and \<open>BudgetReach\<close>.
\<close>

section \<open>A concrete budget\<close>

definition demo_declared :: Budget where
  "demo_declared = \<lparr>bMaxParallelBranches = 0, bMaxDuration = [], bMaxCostUSD = f_zero, bMaxTokens = 1000,
     bWarnTokens = 0, bMaxIterations = 100, bOnExceeded = [], bCapImposed = False, bCeiling = no_ceiling\<rparr>"

definition demo_budget :: SharedBudget where
  "demo_budget = \<lparr>maxTokens = 1000, maxCostUSD = f_zero, maxIterations = 100, maxDuration = 0, warnTokens = 0,
     capImposed = False, ceil = no_ceiling, tokensUsed = 0, costUsed = f_zero, iterationsUsed = 0, startedAt = 0,
     warned = [], everRaised = False, pending = None, unpricedTokens = 0, unpricedNodes = 0, unreportedCalls = 0\<rparr>"

lemma demo_new: "newSharedBudget env now (Some demo_declared) = Some (demo_budget\<lparr>startedAt := now\<rparr>)"
  by (simp add: newSharedBudget_def demo_declared_def demo_budget_def)

lemma f_zero_fin [simp]: "f_fin f_zero"
  by (simp add: f_zero_def)

lemma demo_ok: "declared_ok demo_declared"
  by (simp add: declared_ok_def demo_declared_def cost_ok_def no_ceiling_def fits64_def)

lemma demo_reach: "budget_reach env demo_declared demo_budget"
  using budget_reach.declared [OF demo_new [of env 0]] by (simp add: demo_budget_def)

section \<open>Warnings\<close>

text \<open>C7. Over any interleaving of checks, recordings and notes by any number of branches, a dimension is
  warned about at most once, and never again when it had already been warned about.\<close>

theorem budget_warns_once:
  "distinct (warned_dims (fst (budget_run ops b))) \<and>
   set (warned_dims (fst (budget_run ops b))) \<inter> set (warned b) = {}"
  using ws.runs_once [of b ops] by (simp add: warns_once_def)

text \<open>C33. The warning of an axis between eight and nine tenths of its cap is lost when the check before a
  node execution meets it first: the check marks it emitted and the run goes on, so that no later
  operation of the run warns about the axis.\<close>

theorem boundary_swallows_warning:
  assumes "(ax, used, limit) \<in> set (axis_list now b)" "\<not> f_le limit f_zero"
    "f_le budgetWarningThreshold (f_div used limit)"
    "checkBudgetBeforeExec be False now (Some b) = (Proceed, Some b1)"
  shows "ax \<notin> set (warned_dims (fst (budget_run ops b1)))"
proof -
  have "\<not> hard_axis (ax, used, limit)"
    using assms(1,4) checkBudget_is_gate [of be now b] gate_Proceed [of be now b] by auto
  then have quiet: "\<not> f_le f_one (f_div used limit)" "\<not> f_le budgetHardThreshold (f_div used limit)"
    using assms(2) hard_below_one by (auto simp: hard_axis_def)
  have "ax \<in> set w'" if "check_axes w axs = (rs, w')" "(ax, used, limit) \<in> set axs" for w axs rs w'
    using that
  proof (induction axs arbitrary: w rs w')
    case (Cons a axs)
    obtain rs1 w1 where a: "check_axis w a = (rs1, w1)" by fastforce
    obtain rs2 w2 where r: "check_axes w1 axs = (rs2, w2)" by fastforce
    from Cons.prems a r have "w' = w2" by simp
    show ?case
    proof (cases "a = (ax, used, limit)")
      case True
      then have "ax \<in> set w1" using a assms(2,3) quiet by (auto simp: check_axis_def Let_def split: if_splits)
      with check_axes_once [OF r] \<open>w' = w2\<close> show ?thesis by (simp add: warns_once_def)
    next
      case False
      with Cons.prems(2) Cons.IH [OF r] \<open>w' = w2\<close> show ?thesis by simp
    qed
  qed simp
  then have "ax \<in> set (warned (snd (Check now b)))"
    using assms(1) warn_tokens_once
    by (fastforce simp: Check_def checkLocked_def warns_once_def split: prod.splits)
  moreover have "b1 = snd (Check now b)"
    using assms(4) by (simp add: checkBudgetBeforeExec_def split: prod.splits option.splits)
  ultimately show ?thesis using ws.runs_once [of b1 ops] by (auto simp: warns_once_def)
qed

definition demo_env :: budget_env where
  "demo_env = \<lparr>beGuardsOn = True, beGraceRatio = f_of_rat (1 / 10), beBranchLocal = False, bePausePolicy = False\<rparr>"

definition demo_warm :: SharedBudget where
  "demo_warm = demo_budget\<lparr>tokensUsed := 850\<rparr>"

lemma demo_tokens:
  "axis_list now demo_warm =
     [(''iterations'', FFin False 0, FFin False 100), (''tokens'', FFin False 850, FFin False 1000),
      (''cost_usd'', FFin False 0, FFin False 0), (''duration'', f_of_int now, FFin False 0)]"
  by (simp add: axis_list_def demo_warm_def demo_budget_def elapsed_def float_eval)

theorem boundary_swallows_warning_witness:
  "''tokens'' \<notin> set (warned_dims (fst (budget_run [OpRecord 7 \<lparr>spTokens = 1, spCostUSD = f_zero, spUnreported = 0\<rparr> True]
      (demo_warm\<lparr>warned := [''tokens'']\<rparr>))))"
proof (rule boundary_swallows_warning [of "''tokens''" "FFin False 850" "FFin False 1000" 5 demo_warm demo_env])
  show "(''tokens'', FFin False 850, FFin False 1000) \<in> set (axis_list 5 demo_warm)"
    by (simp add: demo_tokens)
  show "\<not> f_le (FFin False 1000) f_zero" by (simp add: f_le_def f_zero_def)
  show "f_le budgetWarningThreshold (f_div (FFin False 850) (FFin False 1000))"
    by (simp add: threshold_values float_eval)
  have w: "warned demo_warm = []" "warnTokens demo_warm = 0"
    by (simp_all add: demo_warm_def demo_budget_def)
  have "checkLocked 5 demo_warm =
      ([(plain_check ''tokens'' (FFin False 850) (FFin False 1000))\<lparr>crWarning := True\<rparr>], demo_warm\<lparr>warned := [''tokens'']\<rparr>)"
    by (simp add: checkLocked_def demo_tokens w check_axis_def warn_tokens_check_def threshold_values float_eval)
  then show "checkBudgetBeforeExec demo_env False 5 (Some demo_warm) = (Proceed, Some (demo_warm\<lparr>warned := [''tokens'']\<rparr>))"
    by (simp add: checkBudgetBeforeExec_def Check_def findExceeded_def findHardLimited_def plain_check_def)
qed

section \<open>Caps\<close>



text \<open>C18. The overrun the next boundary reads off a check is the one a raise re-derives: on every
  reachable budget, a ratio of used to cap reaches one, in floating point, exactly when used reaches
  the cap.\<close>

theorem overrun_checks_agree:
  assumes "budget_reach env d b" "declared_ok d"
  shows "findExceeded (fst (Check now b)) = liveOverrunLocked now b"
  using budget_reach_inv [OF assms] findExceeded_checkLocked by (simp add: Check_def)

theorem overrun_checks_agree_witness:
  "findExceeded (fst (Check 3 demo_budget)) = liveOverrunLocked 3 demo_budget"
  by (rule overrun_checks_agree [OF demo_reach [of "\<lambda>_. []"] demo_ok])



text \<open>Replaying a raise is idle: a stale or duplicate command changes nothing and reports no raise.\<close>

theorem raise_replayed_idle:
  "RaiseCaps env now' ask (fst (RaiseCaps env now ask b)) =
     (fst (RaiseCaps env now ask b), fst (snd (RaiseCaps env now ask b)), False)"
  using RaiseCaps_replay [of env now ask b] by (metis prod.collapse)

section \<open>Boundaries\<close>

text \<open>C29. A boundary lets the next node execute, without a grace, exactly when no capped axis has used
  nine tenths of its cap; the shared daily cap left aside.\<close>

theorem boundary_proceeds:
  "fst (checkBudgetBeforeExec be False now (Some b)) = Proceed \<longleftrightarrow> filter hard_axis (axis_list now b) = []"
  by (simp add: checkBudget_is_gate gate_Proceed filter_empty_conv)

text \<open>C27. A grace is granted to the run's own flow only, with every loop guard on, a positive ratio, on an
  axis that is full, and only while every capped axis is below its cap stretched by the ratio within the
  ceiling: no run spends past that on a grace.\<close>

theorem grace_bounded:
  assumes "fst (checkBudgetBeforeExec be False now (Some b)) = Graced exc"
  shows "beGuardsOn be \<and> \<not> beBranchLocal be \<and> f_lt f_zero (beGraceRatio be) \<and>
    (\<exists>a \<in> set (axis_list now b). full_axis a \<and> exc = flag_exceeded a) \<and>
    list_all (in_grace (beGraceRatio be)) (zip (axis_list now b) (ceiling_list b))"
  using gate_Graced [of be now b exc] assms by (simp add: checkBudget_is_gate list_all_iff)

theorem grace_bounded_witness:
  "list_all (in_grace (beGraceRatio demo_env)) (zip (axis_list 0 (demo_budget\<lparr>tokensUsed := 1050\<rparr>))
     (ceiling_list (demo_budget\<lparr>tokensUsed := 1050\<rparr>)))"
proof -
  let ?b = "demo_budget\<lparr>tokensUsed := 1050\<rparr>"
  have ax: "axis_list 0 ?b = [(''iterations'', FFin False 0, FFin False 100), (''tokens'', FFin False 1050, FFin False 1000),
      (''cost_usd'', FFin False 0, FFin False 0), (''duration'', FFin False 0, FFin False 0)]"
    "ceiling_list ?b = [FFin False 0, FFin False 0, FFin False 0, FFin False 0]"
    by (simp_all add: axis_list_def ceiling_list_def no_ceiling_def demo_budget_def elapsed_def float_eval)
  have "exitGraceRoom 0 (f_of_rat (1 / 10)) ?b = (''tokens'', True)"
    by (simp add: exitGraceRoom_def ax bounded_f_def float_eval threshold_values)
  moreover have "find full_axis (axis_list 0 ?b) = Some (''tokens'', FFin False 1050, FFin False 1000)"
    by (simp add: ax full_axis_def float_eval threshold_values)
  ultimately have "gate demo_env 0 ?b = Graced (flag_exceeded (''tokens'', FFin False 1050, FFin False 1000))"
    by (simp add: gate_def graceOrFailBudget_def withinBudgetGrace_def withinSharedBudgetGrace_def demo_env_def float_eval)
  then show ?thesis using grace_bounded [of demo_env 0 ?b] by (simp add: checkBudget_is_gate)
qed





section \<open>The ledger\<close>


text \<open>C30. The first overrun noted while branches run is the one the boundary takes: whatever the branches
  record and note after it, the pending overrun is that one until taken, and taking it clears it.\<close>

theorem first_overrun_kept:
  assumes "pending b = None" "OpTakeExceeded \<notin> set ops"
  shows "takeExceeded (snd (budget_run (OpNoteExceeded (Some exc) # ops) b)) =
    (Some exc, (snd (budget_run (OpNoteExceeded (Some exc) # ops) b))\<lparr>pending := None\<rparr>)"
proof -
  have "pending (noteExceeded (Some exc) b) = Some exc" using assms(1) by (simp add: noteExceeded_def)
  from budget_run_pending [OF this assms(2)] show ?thesis
    by (simp add: takeExceeded_def budget_run_Cons del: budget_run.simps(2))
qed

theorem first_overrun_kept_witness:
  "fst (takeExceeded (snd (budget_run [OpNoteExceeded (Some (plain_check ''tokens'' f_zero f_zero)),
      OpNoteExceeded (Some (plain_check ''duration'' f_zero f_zero)), OpUnreported 2] demo_budget))) =
    Some (plain_check ''tokens'' f_zero f_zero)"
  by (subst first_overrun_kept) (simp_all add: demo_budget_def)

section \<open>External caps\<close>

text \<open>Clamping a declared budget by a chain of outer budgets leaves each integer limit positive and
  within every positive outer one, an unlimited axis included: an inner budget never widens an outer cap.\<close>

theorem clamp_chain_bounds:
  "let b' = foldl (ClampToCeiling env osenv) b outers
   in under_all (bMaxTokens b') (map bMaxTokens outers) \<and>
      under_all (bMaxIterations b') (map bMaxIterations outers) \<and>
      under_all (bMaxParallelBranches b') (map bMaxParallelBranches outers)"
  using clamp_chain [of env osenv b outers] by (simp add: Let_def)

end
