(* ===== verification/WorkflowRun.thy ===== *)
theory WorkflowRun
  imports ExprRefs RunBudget
begin

text \<open>
  A run of a compiled workflow, as routing reads it: \<open>ir.Edge\<close>, \<open>ir.Loop\<close>, \<open>ir.Foreach\<close>, the
  \<open>runState\<close> of \<open>pkg/runtime/engine.go\<close>, and the references of \<open>engine_resolve.go\<close>,
  \<open>expr_eval.go\<close> and \<open>run_namespace.go\<close> over it. A Go map with string keys is an association
  list, a counter map the total function that reads 0 where it has no key.
\<close>

section \<open>Workflows\<close>

datatype ref_kind = RefVars | RefInput | RefOutputs | RefArtifacts | RefLoop | RefRun | RefEach | RefAttachments | RefLiteralOpen | RefOtherKind

type_synonym ir_ref = "ref_kind \<times> string list"

type_synonym out_map = "(string \<times> gval) list"

record data_mapping =
  dmKey :: string
  dmRefs :: "ir_ref list"
  dmRaw :: string

record edge =
  eFrom :: string
  eTo :: string
  eCondition :: string
  eNegated :: bool
  eExpression :: "node option"
  eExpressionSrc :: string
  eIsElse :: bool
  eLoopName :: string
  eForeachName :: string
  eWith :: "data_mapping list"

record loop =
  lName :: string
  lMaxIterations :: int
  lMaxIterationsExpr :: string
  lMaxIterationsExprRefs :: "ir_ref list"
  lMaxIterationsAST :: "node option"
  lUnbounded :: bool
  lFuelCap :: int
  lGuard :: string
  lSizedByAST :: "node option"
  lBody :: "string list"
  lEntries :: "string list"

record foreach =
  feName :: string
  feCollectionRefs :: "ir_ref list"

record variable =
  vHasDefault :: bool
  vDefault :: gval

record workflow =
  wfEntry :: string
  wfVars :: "(string \<times> variable) list"
  wfNodes :: "string list"
  wfEdges :: "edge list"
  wfLoops :: "(string \<times> loop) list"
  wfForeaches :: "(string \<times> foreach) list"
  wfBudget :: "Budget option"
  wfLoopBudgetGuard :: string

text \<open>
  The engine: its workflow and configuration, and what stands outside the sources it reads: the
  simulation's stand-ins (none in production), the text of \<open>json.Marshal\<close> (on an output, and on any
  value a template splices) and the array of
  \<open>json.Unmarshal\<close>, \<open>strconv.ParseFloat\<close> on an arbitrary string, and two constants of the deployment.
\<close>

datatype failure = WhenFailure string string string | CollectionFailure string

record engine =
  eWorkflow :: workflow
  eGuardOverride :: string
  eGuardEnv :: string
  eLoopCrossings :: int
  eStandIn :: "failure \<Rightarrow> gval option"
  eEvalBudget :: int
  eCancelled :: "int \<Rightarrow> bool"
  eMarshal :: "out_map \<Rightarrow> string"
  eRender :: "gval \<Rightarrow> string"
  eJSONArray :: "string \<Rightarrow> gval list option"
  eParseFloat :: "string \<Rightarrow> f64 option"
  eRunURL :: string
  eTreeNoise :: string

section \<open>Run state\<close>

record attachment =
  atPath :: string
  atURL :: "string option"     \<comment> \<open>\<open>None\<close>: signing failed\<close>
  atMIME :: string
  atSize :: int
  atSHA256 :: string

text \<open>
  The clock \<open>rsNow\<close> is the instant of the step taken on the state. \<open>rsPrevious\<close> is \<open>None\<close> for the nil
  map of a state built without snapshots.
\<close>

record run_state =
  rsRunID :: string
  rsVars :: out_map
  rsRunInputs :: out_map
  rsOutputs :: "(string \<times> out_map) list"
  rsArtifacts :: "(string \<times> out_map) list"
  rsAttachments :: "(string \<times> attachment) list"
  rsCounters :: "string \<Rightarrow> int"
  rsEnclosingCounters :: "string \<Rightarrow> int"
  rsOverrides :: "string \<Rightarrow> int"
  rsPrevious :: "(string \<Rightarrow> out_map option) option"
  rsEnclosingPrevious :: "string \<Rightarrow> out_map option"
  rsCurrent :: "string \<Rightarrow> out_map option"
  rsProgressSig :: "string \<Rightarrow> string option"
  rsStaleness :: "string \<Rightarrow> int"
  rsMarks :: "string \<Rightarrow> (string \<times> f64) list option"
  rsSizes :: "string \<Rightarrow> f64 option"
  rsBranchLocal :: bool
  rsBudget :: "SharedBudget option"
  rsNow :: int
  rsStartedAt :: "int option"
  rsIncoming :: "string \<Rightarrow> edge list option"
  rsSettled :: "string \<Rightarrow> edge list option"
  rsPermissionGrants :: "string \<Rightarrow> string list"

text \<open>Inside a branch a counter of its own shadows the enclosing run's; the names are disjoint.\<close>

definition iterationCounters :: "run_state \<Rightarrow> string \<Rightarrow> int" where
  "iterationCounters rs name =
     (if rsBranchLocal rs \<and> rsCounters rs name = 0 then rsEnclosingCounters rs name else rsCounters rs name)"

definition previousOutputView :: "run_state \<Rightarrow> string \<Rightarrow> out_map option" where
  "previousOutputView rs name =
     (case rsPrevious rs of
        None \<Rightarrow> if rsBranchLocal rs then rsEnclosingPrevious rs name else None
      | Some prv \<Rightarrow> if rsBranchLocal rs \<and> prv name = None then rsEnclosingPrevious rs name else prv name)"

section \<open>Paths\<close>

fun drillPath :: "gval \<Rightarrow> string list \<Rightarrow> gval" where
  "drillPath v [] = v"
| "drillPath (VMap m) (key # path) = drillPath (case map_of m key of Some v \<Rightarrow> v | None \<Rightarrow> VNil) path"
| "drillPath v (key # path) = VNil"

definition read_entry :: "out_map \<Rightarrow> string \<Rightarrow> gval" where
  "read_entry m key = (case map_of m key of Some v \<Rightarrow> v | None \<Rightarrow> VNil)"

text \<open>The dotted prefixes of a path, the longest first, each with the rest of the path.\<close>

definition path_splits :: "string list \<Rightarrow> (string \<times> string list) list" where
  "path_splits path = map (\<lambda>n. (joinPath (take n path), drop n path)) (rev [1..<Suc (length path)])"

text \<open>
  \<open>matchOutputNode\<close>: the longest prefix that is a declared node, its output nil when it has none,
  or else the longest prefix with an output.
\<close>

definition matchOutputNode :: "string list \<Rightarrow> (string \<times> out_map) list \<Rightarrow> string list \<Rightarrow> out_map option \<times> string list" where
  "matchOutputNode nodes outputs path =
     (case find (\<lambda>(nid, rest). nid \<in> set nodes) (path_splits path) of
        Some (nid, rest) \<Rightarrow> (map_of outputs nid, rest)
      | None \<Rightarrow>
          (case find (\<lambda>(nid, rest). map_of outputs nid \<noteq> None) (path_splits path) of
             Some (nid, rest) \<Rightarrow> (map_of outputs nid, rest)
           | None \<Rightarrow> (None, [])))"

section \<open>The run namespace\<close>

text \<open>\<open>Duration.Seconds\<close>.\<close>

definition duration_seconds :: "int \<Rightarrow> f64" where
  "duration_seconds d =
     f_add (f_of_int (d sdiv second)) (f_div (f_of_int (d smod second)) (f_of_int second))"

definition run_status :: "run_state \<Rightarrow> BudgetStatus" where
  "run_status rs =
     (case rsBudget rs of
        Some b \<Rightarrow> Status (rsNow rs) b
      | None \<Rightarrow>
          \<lparr>stElapsed = (case rsStartedAt rs of None \<Rightarrow> 0 | Some t \<Rightarrow> rsNow rs - t), stCostUSD = f_zero,
           stTokens = 0, stIterations = 0, stMaxDuration = 0, stMaxCostUSD = f_zero, stMaxTokens = 0,
           stMaxIterations = 0\<rparr>)"

definition runNamespace :: "engine \<Rightarrow> run_state \<Rightarrow> (string \<times> gval) list" where
  "runNamespace e rs =
     (let st = run_status rs in
      [(''id'', VString (rsRunID rs)), (''url'', VString (eRunURL e)),
       (''elapsed_seconds'', VF64 (duration_seconds (stElapsed st))), (''cost_usd'', VF64 (stCostUSD st)),
       (''tokens'', VInt KInt64 (stTokens st)), (''iterations'', VInt KInt64 (stIterations st)),
       (''max_duration_seconds'', VF64 (duration_seconds (stMaxDuration st))),
       (''max_cost_usd'', VF64 (stMaxCostUSD st)), (''max_tokens'', VInt KInt64 (stMaxTokens st)),
       (''max_iterations'', VInt KInt64 (stMaxIterations st)), (''tree_noise'', VString (eTreeNoise e))])"

definition resolveRunPath :: "engine \<Rightarrow> run_state \<Rightarrow> string list \<Rightarrow> gval" where
  "resolveRunPath e rs path =
     (case path of [m] \<Rightarrow> read_entry (runNamespace e rs) m | _ \<Rightarrow> VNil)"

section \<open>The expression context\<close>

text \<open>
  \<open>resolveLoopPath\<close>, the effective cap of a loop read through \<open>maxOf\<close> (\<open>None\<close>: not declared).
\<close>

definition resolveLoopPath :: "(string \<Rightarrow> int option) \<Rightarrow> run_state \<Rightarrow> string list \<Rightarrow> gval" where
  "resolveLoopPath maxOf rs path =
     (case path of
        name # field # rest \<Rightarrow>
          if field = ''iteration'' then VInt KInt64 (iterationCounters rs name)
          else if field = ''max'' then (case maxOf name of Some n \<Rightarrow> VInt KInt64 n | None \<Rightarrow> VNil)
          else if field = ''previous_output'' then
            drillPath (VMap (case previousOutputView rs name of Some out \<Rightarrow> out | None \<Rightarrow> [])) rest
          else VNil
      | _ \<Rightarrow> VNil)"

definition keyed_read :: "(string \<times> out_map) list \<Rightarrow> string list \<Rightarrow> gval" where
  "keyed_read byKey path =
     (case path of
        [] \<Rightarrow> VTMap ''map[string]map[string]interface {}'' (map (\<lambda>(k, m). (k, VMap m)) byKey)
      | k # rest \<Rightarrow> drillPath (VMap (case map_of byKey k of Some m \<Rightarrow> m | None \<Rightarrow> [])) rest)"

definition output_read :: "engine \<Rightarrow> run_state \<Rightarrow> string list \<Rightarrow> gval" where
  "output_read e rs path =
     (if path = [] then VTMap ''map[string]map[string]interface {}'' (map (\<lambda>(k, m). (k, VMap m)) (rsOutputs rs))
      else (case matchOutputNode (wfNodes (eWorkflow e)) (rsOutputs rs) path of
              (None, _) \<Rightarrow> VNil
            | (Some out, flds) \<Rightarrow> drillPath (VMap out) flds))"

definition exprContext :: "engine \<Rightarrow> (string \<Rightarrow> int option) \<Rightarrow> run_state \<Rightarrow> out_map \<Rightarrow> eval_context" where
  "exprContext e maxOf rs input =
     \<lparr>cVars = Some (\<lambda>path. drillPath (VMap (rsVars rs)) path),
      cInput = Some (\<lambda>path. drillPath (VMap input) path),
      cOutputs = Some (output_read e rs),
      cArtifacts = Some (keyed_read (rsArtifacts rs)),
      cLoop = Some (resolveLoopPath maxOf rs),
      cRun = Some (resolveRunPath e rs)\<rparr>"

definition eval_in :: "engine \<Rightarrow> (int \<Rightarrow> bool) \<Rightarrow> eval_context \<Rightarrow> node \<Rightarrow> (eval_error, gval) result" where
  "eval_in e cancelled c ast = eval_ast \<lparr>eCtx = Some c, eInterrupted = cancelled\<rparr> (eEvalBudget e) (Some ast)"

section \<open>References\<close>

text \<open>
  \<open>coerceToArray\<close>, its error as \<open>None\<close>. A nil slice is no other than an empty one here.
\<close>

fun coerceToArray :: "engine \<Rightarrow> gval \<Rightarrow> gval list option" where
  "coerceToArray e (VList xs) = Some xs"
| "coerceToArray e (VString s) =
     (let t = trim_space s in if t = [] then Some [] else eJSONArray e t)"
| "coerceToArray e (VTSlice ty xs) = Some xs"
| "coerceToArray e v = None"

text \<open>
  \<open>resolveEachPath\<close> for the foreach \<open>name\<close>: its collection is \<open>coll\<close>. The foreach is the longest
  dotted prefix that names one, the field the segment after it.
\<close>

definition each_split :: "engine \<Rightarrow> string list \<Rightarrow> (string \<times> string list) option" where
  "each_split e path =
     find (\<lambda>(nid, rest). rest \<noteq> [] \<and> map_of (wfForeaches (eWorkflow e)) nid \<noteq> None) (path_splits path)"

definition foreachCounterKey :: "string \<Rightarrow> string" where
  "foreachCounterKey name = ''foreach/'' @ name"

definition each_field :: "gval list \<Rightarrow> int \<Rightarrow> string list \<Rightarrow> gval" where
  "each_field coll idx path =
     (let count = int (length coll) in
      case path of
        field # rest \<Rightarrow>
          if field = ''item'' then
            (if idx < 0 \<or> count \<le> idx then VNil else drillPath (coll ! nat idx) rest)
          else if field = ''index'' then VInt KInt64 idx
          else if field = ''count'' then VInt KInt64 count
          else if field = ''first'' then VBool (idx = 0)
          else if field = ''last'' then VBool (count = 0 \<or> count - 1 \<le> idx)
          else if field = ''empty'' then VBool (count = 0)
          else VNil
      | [] \<Rightarrow> VNil)"

definition attachment_read :: "run_state \<Rightarrow> string list \<Rightarrow> gval" where
  "attachment_read rs path =
     (case path of
        [] \<Rightarrow> VNil
      | name # rest \<Rightarrow>
          (case map_of (rsAttachments rs) name of
             None \<Rightarrow> VNil
           | Some info \<Rightarrow>
               (let sub = (case rest of [] \<Rightarrow> ''path'' | s # _ \<Rightarrow> s) in
                if sub = ''path'' then VString (atPath info)
                else if sub = ''url'' then
                  (case atURL info of Some u \<Rightarrow> if u = [] then VNil else VString u | None \<Rightarrow> VNil)
                else if sub = ''mime'' then VString (atMIME info)
                else if sub = ''size'' then VInt KInt64 (atSize info)
                else if sub = ''sha256'' then VString (atSHA256 info)
                else VNil)))"

text \<open>
  \<open>resolveRef\<close> and \<open>resolveForeachCollection\<close> call each other: a collection may be read from another
  foreach's element. The recursion is on the depth of the Go stack; \<open>None\<close> is no return within it.
  The collections already open are an argument of the reference.
\<close>

definition resolveRef :: "engine \<Rightarrow> (string \<Rightarrow> int option) \<Rightarrow> (foreach \<Rightarrow> gval list option) \<Rightarrow> run_state \<Rightarrow>
    ir_ref \<Rightarrow> gval option" where
  "resolveRef e maxOf collOf rs ref =
     (case ref of (kind, path) \<Rightarrow>
        (case kind of
           RefLiteralOpen \<Rightarrow> Some (VString ''{{'')
         | RefVars \<Rightarrow> Some (case path of [] \<Rightarrow> VNil | k # rest \<Rightarrow> drillPath (read_entry (rsVars rs) k) rest)
         | RefInput \<Rightarrow> Some (case path of [] \<Rightarrow> VNil | k # rest \<Rightarrow> read_entry (rsRunInputs rs) k)
         | RefOutputs \<Rightarrow>
             Some (if path = [] then VNil
                   else (case matchOutputNode (wfNodes (eWorkflow e)) (rsOutputs rs) path of
                           (None, _) \<Rightarrow> VNil
                         | (Some out, []) \<Rightarrow> VMap out
                         | (Some out, k # rest) \<Rightarrow> drillPath (read_entry out k) rest))
         | RefArtifacts \<Rightarrow>
             Some (case path of [] \<Rightarrow> VNil
                   | k # rest \<Rightarrow> VMap (case map_of (rsArtifacts rs) k of Some m \<Rightarrow> m | None \<Rightarrow> []))
         | RefLoop \<Rightarrow> Some (resolveLoopPath maxOf rs path)
         | RefRun \<Rightarrow> Some (resolveRunPath e rs path)
         | RefEach \<Rightarrow>
             (case each_split e path of
                None \<Rightarrow> Some VNil
              | Some (name, rest) \<Rightarrow>
                  (case map_of (wfForeaches (eWorkflow e)) name of
                     None \<Rightarrow> Some VNil
                   | Some fe \<Rightarrow>
                       (case collOf fe of
                          None \<Rightarrow> None
                        | Some coll \<Rightarrow> Some (each_field coll (iterationCounters rs (foreachCounterKey name)) rest))))
         | RefAttachments \<Rightarrow> Some (attachment_read rs path)
         | RefOtherKind \<Rightarrow> Some VNil))"

primrec resolveForeachCollection :: "engine \<Rightarrow> (string \<Rightarrow> int option) \<Rightarrow> run_state \<Rightarrow> nat \<Rightarrow> foreach \<Rightarrow>
    gval list option" where
  "resolveForeachCollection e maxOf rs 0 fe = None"
| "resolveForeachCollection e maxOf rs (Suc depth) fe =
     (case feCollectionRefs fe of
        [] \<Rightarrow> Some []
      | r # _ \<Rightarrow>
          (case resolveRef e maxOf (resolveForeachCollection e maxOf rs depth) rs r of
             None \<Rightarrow> None
           | Some v \<Rightarrow>
               Some (case coerceToArray e v of
                       Some xs \<Rightarrow> xs
                     | None \<Rightarrow> (case eStandIn e (CollectionFailure (feName fe)) of Some (VList xs) \<Rightarrow> xs | _ \<Rightarrow> []))))"

text \<open>A chain of collections without a cycle opens each foreach at most once.\<close>

definition collectionOf :: "engine \<Rightarrow> (string \<Rightarrow> int option) \<Rightarrow> run_state \<Rightarrow> foreach \<Rightarrow> gval list option" where
  "collectionOf e maxOf rs fe =
     resolveForeachCollection e maxOf rs (Suc (length (wfForeaches (eWorkflow e)))) fe"

end
