(* ===== verification/EdgeSelect.thy ===== *)
theory EdgeSelect
  imports WorkflowRun
begin

text \<open>
  Routing: \<open>pkg/runtime/edges.go\<close>, \<open>loop_cap.go\<close>, \<open>loop_budget.go\<close> and the edge selection of
  \<open>engine_exec.go\<close>. Selecting reads the run state and writes its liveness monitor; committing a
  selected edge moves the loop counters, prices and snapshots. Log lines are left out; the
  budget warning of a declined loop edge is a value of the result.
\<close>

section \<open>Switches\<close>

text \<open>\<open>None\<close>: the layer is unset or unreadable.\<close>

definition parseOnOff :: "string \<Rightarrow> bool option" where
  "parseOnOff v =
     (let w = trim_space (to_lower v) in
      if w \<in> {''off'', ''0'', ''false'', ''no''} then Some False
      else if w \<in> {''on'', ''1'', ''true'', ''yes''} then Some True
      else None)"

definition or_layer :: "bool option \<Rightarrow> bool \<Rightarrow> bool" where
  "or_layer layer next = (case layer of Some v \<Rightarrow> v | None \<Rightarrow> next)"

definition loop_of :: "engine \<Rightarrow> string \<Rightarrow> loop option" where
  "loop_of e name = map_of (wfLoops (eWorkflow e)) name"

definition loopBudgetGuardEnabledFor :: "engine \<Rightarrow> string \<Rightarrow> bool" where
  "loopBudgetGuardEnabledFor e name =
     or_layer (parseOnOff (eGuardOverride e))
       (or_layer (case loop_of e name of Some l \<Rightarrow> parseOnOff (lGuard l) | None \<Rightarrow> None)
         (or_layer (parseOnOff (wfLoopBudgetGuard (eWorkflow e)))
           (or_layer (parseOnOff (eGuardEnv e)) True)))"

section \<open>Loop caps\<close>

datatype cap_error =
    CapEval eval_error
  | CapString string          \<comment> \<open>arithmetic that concatenated\<close>
  | CapRefs
  | CapBadNumber string
  | CapNotInteger gval
  | CapOverflow
  | CapStack                  \<comment> \<open>no return: a foreach collection read from its own element\<close>

definition json_number :: "gval \<Rightarrow> string option" where
  "json_number v = (case v of VOther ty s \<Rightarrow> if ty = ''json.Number'' then Some s else None | _ \<Rightarrow> None)"

fun coerceToInt :: "engine \<Rightarrow> gval \<Rightarrow> int option" where
  "coerceToInt e (VInt k n) = (if k \<in> {KInt, KInt64, KInt32} then Some n else None)"
| "coerceToInt e (VF64 f) = Some (f_to_int64 f)"
| "coerceToInt e (VF32 f) = Some (f_to_int64 f)"
| "coerceToInt e (VString s) = atoi s"
| "coerceToInt e (VOther ty s) =
     (if ty = ''json.Number'' then
        (case atoi s of Some n \<Rightarrow> Some n | None \<Rightarrow> map_option f_to_int64 (eParseFloat e s))
      else None)"
| "coerceToInt e v = None"

text \<open>Not a representable non-negative integer.\<close>

definition bad_cap_float :: "f64 \<Rightarrow> bool" where
  "bad_cap_float f \<longleftrightarrow> f_is_nan f \<or> f_is_inf f \<or> \<not> f_eq (f_trunc f) f \<or> f_lt f f_zero \<or> f_le (f_of_int (2 ^ 63)) f"

definition loopCapInteger :: "engine \<Rightarrow> gval \<Rightarrow> (cap_error, int) result" where
  "loopCapInteger e v =
     res_bind
       (case json_number v of
          None \<Rightarrow> Inr v
        | Some s \<Rightarrow>
            (case atoi s of
               Some n \<Rightarrow> Inr (VInt KInt64 n)
             | None \<Rightarrow> (case eParseFloat e s of Some f \<Rightarrow> Inr (VF64 f) | None \<Rightarrow> Inl (CapBadNumber s))))
       (\<lambda>w. if (case w of VF64 f \<Rightarrow> bad_cap_float f | VF32 f \<Rightarrow> bad_cap_float f | _ \<Rightarrow> False) then Inl (CapNotInteger w)
            else (case coerceToInt e w of
                    Some n \<Rightarrow> if n < 0 then Inl (CapNotInteger w) else Inr n
                  | None \<Rightarrow> Inl (CapNotInteger w)))"

definition defaultUnboundedFuel :: int where
  "defaultUnboundedFuel = 1000"

definition is_path_expr :: "node \<Rightarrow> bool" where
  "is_path_expr ast \<longleftrightarrow> (case ToSnapshot (Some ast) of Some s \<Rightarrow> snKind s = SnapPath | None \<Rightarrow> False)"

definition resolveLoopMaxBase :: "engine \<Rightarrow> (string \<Rightarrow> int option) \<Rightarrow> run_state \<Rightarrow> loop \<Rightarrow> (cap_error, int) result" where
  "resolveLoopMaxBase e maxOf rs l =
     (if lUnbounded l then
        (if 0 < lFuelCap l then Inr (lFuelCap l)
         else (case wfBudget (eWorkflow e) of
                 Some b \<Rightarrow> if 0 < bMaxIterations b then Inr (bMaxIterations b) else Inr defaultUnboundedFuel
               | None \<Rightarrow> Inr defaultUnboundedFuel))
      else
        (case lMaxIterationsAST l of
           Some ast \<Rightarrow>
             (case eval_in e (eCancelled e) (exprContext e maxOf rs []) ast of
                Inl err \<Rightarrow> Inl (CapEval err)
              | Inr (VString s) \<Rightarrow> if is_path_expr ast then loopCapInteger e (VString s) else Inl (CapString s)
              | Inr v \<Rightarrow> loopCapInteger e v)
         | None \<Rightarrow>
             if lMaxIterationsExpr l \<noteq> [] then
               (case lMaxIterationsExprRefs l of
                  [r] \<Rightarrow>
                    (case resolveRef e maxOf (collectionOf e maxOf rs) rs r of
                       None \<Rightarrow> Inl CapStack
                     | Some v \<Rightarrow> loopCapInteger e v)
                | _ \<Rightarrow> Inl CapRefs)
             else loopCapInteger e (VInt KInt (lMaxIterations l))))"

definition resolveLoopMaxChecked :: "engine \<Rightarrow> (string \<Rightarrow> int option) \<Rightarrow> run_state \<Rightarrow> loop \<Rightarrow> (cap_error, int) result" where
  "resolveLoopMaxChecked e maxOf rs l =
     res_bind (resolveLoopMaxBase e maxOf rs l)
       (\<lambda>base. let extra = rsOverrides rs (lName l) in
         if 0 < extra then (if maxInt - base < extra then Inl CapOverflow else Inr (base + extra)) else Inr base)"

text \<open>
  \<open>resolveLoopMax\<close>, what \<open>loop.<name>.max\<close> reads: an unresolved cap reads 0. A cap that read another
  loop's cap would recurse; the compiler refuses a cap that reads anything but variables and outputs, so
  a depth of one is enough (proved in \<open>EdgeSelectOk\<close>).
\<close>

primrec maxReader :: "engine \<Rightarrow> run_state \<Rightarrow> nat \<Rightarrow> string \<Rightarrow> int option" where
  "maxReader e rs 0 = (\<lambda>name. None)"
| "maxReader e rs (Suc depth) =
     (\<lambda>name. map_option
        (\<lambda>l. case resolveLoopMaxChecked e (maxReader e rs depth) rs l of Inl err \<Rightarrow> 0 | Inr n \<Rightarrow> n) (loop_of e name))"

definition resolveLoopMax :: "engine \<Rightarrow> run_state \<Rightarrow> string \<Rightarrow> int option" where
  "resolveLoopMax e rs = maxReader e rs (Suc (Suc 0))"

section \<open>The price of an iteration\<close>

fun loopSizeNumber :: "engine \<Rightarrow> gval \<Rightarrow> f64 option" where
  "loopSizeNumber e (VInt k n) = (if k \<in> {KInt, KInt64} \<and> 0 \<le> n then Some (f_of_int n) else None)"
| "loopSizeNumber e (VF64 f) = (if \<not> f_is_nan f \<and> \<not> f_is_inf f \<and> f_le f_zero f then Some f else None)"
| "loopSizeNumber e (VF32 f) = (if \<not> f_is_nan f \<and> \<not> f_is_inf f \<and> f_le f_zero f then Some f else None)"
| "loopSizeNumber e (VOther ty s) =
     (if ty = ''json.Number'' then
        (case eParseFloat e s of
           Some f \<Rightarrow> if \<not> f_is_nan f \<and> \<not> f_is_inf f \<and> f_le f_zero f then Some f else None
         | None \<Rightarrow> None)
      else None)"
| "loopSizeNumber e (VString s) =
     (case eParseFloat e (trim_space s) of
        Some f \<Rightarrow> if \<not> f_is_nan f \<and> \<not> f_is_inf f \<and> f_le f_zero f then Some f else None
      | None \<Rightarrow> None)"
| "loopSizeNumber e v = None"

text \<open>\<open>Eval\<close>, not \<open>EvalContext\<close>: a sizing expression is not cancelled.\<close>

definition loopWorkSize :: "engine \<Rightarrow> run_state \<Rightarrow> loop \<Rightarrow> f64 option" where
  "loopWorkSize e rs l =
     (case lSizedByAST l of
        None \<Rightarrow> None
      | Some ast \<Rightarrow>
          (case eval_in e (\<lambda>_. False) (exprContext e (resolveLoopMax e rs) rs []) ast of
             Inl err \<Rightarrow> None
           | Inr v \<Rightarrow> if v = VNil then None else loopSizeNumber e v))"

record shortfall =
  sfDimension :: string
  sfSpent :: f64
  sfRemaining :: f64
  sfUsed :: f64
  sfLimit :: f64
  sfSizes :: "(f64 \<times> f64) option"

definition mark_read :: "(string \<times> f64) list \<Rightarrow> string \<Rightarrow> f64" where
  "mark_read mark ax = (case map_of mark ax of Some v \<Rightarrow> v | None \<Rightarrow> f_zero)"

definition axis_shortfall :: "(string \<times> f64) list \<Rightarrow> (f64 \<times> f64) option \<Rightarrow> string \<times> f64 \<times> f64 \<Rightarrow> shortfall option" where
  "axis_shortfall previous sizes axis =
     (case axis of (ax, used, left) \<Rightarrow>
        (let moved = f_sub used (mark_read previous ax);
             spent = (case sizes of Some (from, now) \<Rightarrow> f_mul moved (f_div now from) | None \<Rightarrow> moved);
             limit = f_add used left
         in if f_le spent f_zero then None
            else if f_le (f_mul budgetHardThreshold limit) (f_add used spent) then
              Some \<lparr>sfDimension = ax, sfSpent = spent, sfRemaining = left, sfUsed = used, sfLimit = limit, sfSizes = sizes\<rparr>
            else None))"

fun first_shortfall :: "(string \<times> f64) list \<Rightarrow> (f64 \<times> f64) option \<Rightarrow> (string \<times> f64 \<times> f64) list \<Rightarrow> shortfall option" where
  "first_shortfall previous sizes [] = None"
| "first_shortfall previous sizes (a # as) =
     (case axis_shortfall previous sizes a of Some v \<Rightarrow> Some v | None \<Rightarrow> first_shortfall previous sizes as)"

text \<open>The sizes of a prorated price: at the last mark and now.\<close>

definition prorated_sizes :: "engine \<Rightarrow> run_state \<Rightarrow> string \<Rightarrow> (f64 \<times> f64) option" where
  "prorated_sizes e rs name =
     (case loop_of e name of
        None \<Rightarrow> None
      | Some l \<Rightarrow>
          (case loopWorkSize e rs l of
             None \<Rightarrow> None
           | Some now \<Rightarrow>
               (case rsSizes rs name of
                  Some from \<Rightarrow> if f_lt f_zero from then Some (from, now) else None
                | None \<Rightarrow> None)))"

definition loopBudgetShortfall :: "engine \<Rightarrow> run_state \<Rightarrow> string \<Rightarrow> shortfall option" where
  "loopBudgetShortfall e rs name =
     (if \<not> loopBudgetGuardEnabledFor e name \<or> rsBranchLocal rs then None
      else (case rsMarks rs name of
              None \<Rightarrow> None
            | Some previous \<Rightarrow> first_shortfall previous (prorated_sizes e rs name) (Axes (rsNow rs) (rsBudget rs))))"

definition markLoopBudget :: "engine \<Rightarrow> string \<Rightarrow> run_state \<Rightarrow> run_state" where
  "markLoopBudget e name rs =
     (let axes = Axes (rsNow rs) (rsBudget rs) in
      if axes = [] then rs
      else
        (let rs1 = rs\<lparr>rsMarks := (rsMarks rs)(name := Some (map (\<lambda>(ax, used, left). (ax, used)) axes))\<rparr> in
         case loop_of e name of
           None \<Rightarrow> rs1
         | Some l \<Rightarrow>
             if lSizedByAST l = None then rs1
             else rs1\<lparr>rsSizes := (rsSizes rs1)(name := loopWorkSize e rs1 l)\<rparr>))"

text \<open>The order of Go's map iteration over the loops is not fixed; a loop prices only itself.\<close>

definition baselineUnpricedLoops :: "engine \<Rightarrow> run_state \<Rightarrow> run_state" where
  "baselineUnpricedLoops e rs =
     fold (\<lambda>(name, l) s. if rsMarks s name \<noteq> None then s else markLoopBudget e name s) (wfLoops (eWorkflow e)) rs"

text \<open>A mark taken before the run consumed anything.\<close>

definition isRunStartBaseline :: "(string \<times> f64) list \<Rightarrow> bool" where
  "isRunStartBaseline mark =
     list_all (\<lambda>(ax, v). if ax = ''duration'' then \<not> f_le (f_of_int second) v else f_eq v f_zero) mark"

definition loopHoldsEntry :: "loop option \<Rightarrow> string \<Rightarrow> bool" where
  "loopHoldsEntry l entry = (case l of Some l \<Rightarrow> entry \<in> set (lBody l) | None \<Rightarrow> False)"

section \<open>Selecting an edge\<close>

datatype decline_reason = LoopCap | LoopOutOfFuel | SimulationCrossings | LivenessStall | LoopBudgetGuard

record LoopDeclined =
  ldLoop :: string
  ldReason :: decline_reason

definition CeilingReason :: "decline_reason \<Rightarrow> bool" where
  "CeilingReason r \<longleftrightarrow> r \<noteq> LoopCap"

datatype route_error =
    CapFailure string cap_error                 \<comment> \<open>EXPRESSION_FAILED at this loop\<close>
  | LoopExhausted "LoopDeclined option"         \<comment> \<open>with the cause it carries\<close>
  | NoOutgoingEdge "LoopDeclined option"
  | StackOverflow

definition maxLoopStall :: int where
  "maxLoopStall = 3"

definition loopStalled :: "engine \<Rightarrow> string \<Rightarrow> out_map \<Rightarrow> run_state \<Rightarrow> bool \<times> run_state" where
  "loopStalled e name output_of rs =
     (let sig = eMarshal e output_of;
          n = (if rsProgressSig rs name = Some sig then rsStaleness rs name + 1 else 0)
      in (maxLoopStall \<le> n,
          rs\<lparr>rsStaleness := (rsStaleness rs)(name := n), rsProgressSig := (rsProgressSig rs)(name := Some sig)\<rparr>))"

text \<open>\<open>edgeWhenHolds\<close>: a failed expression is decided by the simulation's stand-in or not at all.\<close>

definition edgeWhenHolds :: "engine \<Rightarrow> run_state \<Rightarrow> out_map \<Rightarrow> edge \<Rightarrow> node \<Rightarrow> (eval_error, bool) result" where
  "edgeWhenHolds e rs out ed ast =
     (case eval_in e (eCancelled e) (exprContext e (resolveLoopMax e rs) rs out) ast of
        Inr v \<Rightarrow> Inr (truthy v)
      | Inl err \<Rightarrow>
          (case eStandIn e (WhenFailure (eFrom ed) (eTo ed) (eExpressionSrc ed)) of
             None \<Rightarrow> Inl err
           | Some v \<Rightarrow> Inr (v = VBool True)))"

text \<open>The field form of a condition.\<close>

definition field_holds :: "out_map \<Rightarrow> edge \<Rightarrow> bool" where
  "field_holds out ed =
     (case map_of out (eCondition ed) of
        Some (VBool b) \<Rightarrow> if eNegated ed then \<not> b else b
      | _ \<Rightarrow> False)"

definition edgeConditionHolds :: "engine \<Rightarrow> run_state \<Rightarrow> out_map \<Rightarrow> edge \<Rightarrow> bool" where
  "edgeConditionHolds e rs out ed =
     (case eExpression ed of
        Some ast \<Rightarrow> (case edgeWhenHolds e rs out ed ast of Inl err \<Rightarrow> False | Inr b \<Rightarrow> b)
      | None \<Rightarrow> if eCondition ed = [] then True else field_holds out ed)"

text \<open>An edge without a \<open>when\<close>: a fallback.\<close>

definition unguarded :: "edge \<Rightarrow> bool" where
  "unguarded ed \<longleftrightarrow> eCondition ed = [] \<and> eExpression ed = None"

text \<open>The local variables of \<open>evaluateEdgesWithLoopsRS\<close> across its loop, and the warnings emitted.\<close>

record scan =
  scState :: run_state
  scUnconditional :: "edge option"
  scElse :: "(edge \<times> route_error option) option"
  scLoop :: "(edge \<times> route_error option) option"
  scExhausted :: bool
  scDeclined :: "LoopDeclined option"
  scCapDecline :: "LoopDeclined option"
  scMixed :: bool
  scWarnings :: "LoopDeclined list"

definition noteDecline :: "LoopDeclined \<Rightarrow> scan \<Rightarrow> scan" where
  "noteDecline d s =
     (case scDeclined s of
        None \<Rightarrow> s\<lparr>scDeclined := Some d\<rparr>
      | Some d0 \<Rightarrow> if CeilingReason (ldReason d) \<noteq> CeilingReason (ldReason d0) then s\<lparr>scMixed := True\<rparr> else s)"

text \<open>A decline at a cap, fuel or crossing bound is what an exhausted run dies of; the first one is kept.\<close>

definition noteExhausted :: "LoopDeclined \<Rightarrow> scan \<Rightarrow> scan" where
  "noteExhausted d s = (if scExhausted s then s else s\<lparr>scExhausted := True, scCapDecline := Some d\<rparr>)"

definition warn :: "LoopDeclined \<Rightarrow> scan \<Rightarrow> scan" where
  "warn d s = s\<lparr>scWarnings := scWarnings s @ [d]\<rparr>"

datatype verdict =
    Continue scan                      \<comment> \<open>next edge\<close>
  | FallThrough scan                   \<comment> \<open>the rest of this edge's tests\<close>
  | Select scan edge
  | Fail scan route_error

definition keep_else :: "edge \<Rightarrow> route_error option \<Rightarrow> scan \<Rightarrow> scan" where
  "keep_else ed err s = (if scElse s = None then s\<lparr>scElse := Some (ed, err)\<rparr> else s)"

definition keep_loop :: "edge \<Rightarrow> route_error option \<Rightarrow> scan \<Rightarrow> scan" where
  "keep_loop ed err s = (if scLoop s = None then s\<lparr>scLoop := Some (ed, err)\<rparr> else s)"

text \<open>A loop edge whose condition holds: its cap, the simulation's bound, liveness and affordability.\<close>

definition loop_edge :: "engine \<Rightarrow> out_map \<Rightarrow> edge \<Rightarrow> loop \<Rightarrow> scan \<Rightarrow> verdict" where
  "loop_edge e out ed l s =
     (let rs = scState s; name = eLoopName ed; count = rsCounters rs name in
      case resolveLoopMaxChecked e (resolveLoopMax e rs) rs l of
        Inl err \<Rightarrow>
          if \<not> unguarded ed then Fail s (CapFailure name err)
          else Continue (if eIsElse ed then keep_else ed (Some (CapFailure name err)) s
                         else keep_loop ed (Some (CapFailure name err)) s)
      | Inr maxIter \<Rightarrow>
          if maxIter \<le> count then
            (let d = \<lparr>ldLoop = name, ldReason = (if lUnbounded l then LoopOutOfFuel else LoopCap)\<rparr>
             in Continue (noteDecline d (noteExhausted d (if lUnbounded l then warn d s else s))))
          else if 0 < eLoopCrossings e \<and> \<not> lUnbounded l \<and> eLoopCrossings e \<le> count then
            (let d = \<lparr>ldLoop = name, ldReason = SimulationCrossings\<rparr>
             in Continue (noteDecline d (noteExhausted d (warn d s))))
          else
            (let (stalled, rs1) = (if lUnbounded l then loopStalled e name out rs else (False, rs));
                 s1 = s\<lparr>scState := rs1\<rparr>
             in if stalled then
                  (let d = \<lparr>ldLoop = name, ldReason = LivenessStall\<rparr> in Continue (noteDecline d (warn d s1)))
                else
                  (case loopBudgetShortfall e rs1 name of
                     Some v \<Rightarrow> (let d = \<lparr>ldLoop = name, ldReason = LoopBudgetGuard\<rparr> in Continue (noteDecline d (warn d s1)))
                   | None \<Rightarrow>
                       if unguarded ed \<and> \<not> eIsElse ed then Continue (keep_loop ed None s1) else FallThrough s1)))"

definition loop_part :: "engine \<Rightarrow> out_map \<Rightarrow> edge \<Rightarrow> scan \<Rightarrow> verdict" where
  "loop_part e out ed s =
     (if eLoopName ed = [] then FallThrough s
      else (case loop_of e (eLoopName ed) of
              None \<Rightarrow> FallThrough s
            | Some l \<Rightarrow>
                if edgeConditionHolds e (scState s) out ed then loop_edge e out ed l s else FallThrough s))"

definition foreach_part :: "engine \<Rightarrow> edge \<Rightarrow> scan \<Rightarrow> verdict" where
  "foreach_part e ed s =
     (if eForeachName ed = [] then FallThrough s
      else (case map_of (wfForeaches (eWorkflow e)) (eForeachName ed) of
              None \<Rightarrow> FallThrough s
            | Some fe \<Rightarrow>
                (case collectionOf e (resolveLoopMax e (scState s)) (scState s) fe of
                   None \<Rightarrow> Fail s StackOverflow
                 | Some coll \<Rightarrow>
                     if int (length coll) \<le> rsCounters (scState s) (foreachCounterKey (eForeachName ed)) + 1 then Continue s
                     else if unguarded ed \<and> \<not> eIsElse ed then Continue (keep_loop ed None s)
                     else FallThrough s)))"

definition condition_part :: "engine \<Rightarrow> out_map \<Rightarrow> edge \<Rightarrow> scan \<Rightarrow> verdict" where
  "condition_part e out ed s =
     (case eExpression ed of
        Some ast \<Rightarrow> (case edgeWhenHolds e (scState s) out ed ast of Inr True \<Rightarrow> Select s ed | _ \<Rightarrow> Continue s)
      | None \<Rightarrow>
          if eCondition ed = [] then
            Continue (if eIsElse ed then keep_else ed None s
                      else if scUnconditional s = None then s\<lparr>scUnconditional := Some ed\<rparr> else s)
          else if field_holds out ed then Select s ed
          else Continue s)"

definition and_next :: "verdict \<Rightarrow> (scan \<Rightarrow> verdict) \<Rightarrow> verdict" where
  "and_next v f = (case v of FallThrough s \<Rightarrow> f s | _ \<Rightarrow> v)"

definition scan_edge :: "engine \<Rightarrow> out_map \<Rightarrow> edge \<Rightarrow> scan \<Rightarrow> verdict" where
  "scan_edge e out ed s =
     and_next (loop_part e out ed s) (\<lambda>s1. and_next (foreach_part e ed s1) (condition_part e out ed))"

text \<open>The outcome of the scan: an edge or a failure at once, or the slots at the end.\<close>

fun scan_edges :: "engine \<Rightarrow> out_map \<Rightarrow> edge list \<Rightarrow> scan \<Rightarrow> verdict" where
  "scan_edges e out [] s = Continue s"
| "scan_edges e out (ed # eds) s =
     (case scan_edge e out ed s of
        Continue s1 \<Rightarrow> scan_edges e out eds s1
      | FallThrough s1 \<Rightarrow> scan_edges e out eds s1
      | v \<Rightarrow> v)"

definition start_scan :: "run_state \<Rightarrow> scan" where
  "start_scan rs =
     \<lparr>scState = rs, scUnconditional = None, scElse = None, scLoop = None, scExhausted = False, scDeclined = None,
      scCapDecline = None, scMixed = False, scWarnings = []\<rparr>"

definition declineCause :: "LoopDeclined option \<Rightarrow> bool \<Rightarrow> LoopDeclined option" where
  "declineCause d mixed = (if mixed then None else d)"

text \<open>The fallbacks, in the order that decides: iteration, \<open>else\<close>, bare; then what the run dies of.\<close>

definition fallback :: "scan \<Rightarrow> (route_error, edge option) result" where
  "fallback s =
     (case scLoop s of
        Some (ed, Some err) \<Rightarrow> Inl err
      | Some (ed, None) \<Rightarrow> Inr (Some ed)
      | None \<Rightarrow>
          (case scElse s of
             Some (ed, Some err) \<Rightarrow> Inl err
           | Some (ed, None) \<Rightarrow> Inr (Some ed)
           | None \<Rightarrow>
               (case scUnconditional s of
                  Some ed \<Rightarrow> Inr (Some ed)
                | None \<Rightarrow>
                    if scExhausted s then Inl (LoopExhausted (declineCause (scCapDecline s) (scMixed s)))
                    else if scDeclined s \<noteq> None then Inl (NoOutgoingEdge (declineCause (scDeclined s) (scMixed s)))
                    else Inr None)))"

definition evaluateEdges :: "engine \<Rightarrow> string \<Rightarrow> out_map \<Rightarrow> run_state \<Rightarrow>
    (route_error, edge option) result \<times> run_state \<times> LoopDeclined list" where
  "evaluateEdges e nodeID out rs =
     (case scan_edges e out (filter (\<lambda>ed. eFrom ed = nodeID) (wfEdges (eWorkflow e))) (start_scan rs) of
        Continue s \<Rightarrow> (fallback s, scState s, scWarnings s)
      | FallThrough s \<Rightarrow> (fallback s, scState s, scWarnings s)
      | Select s ed \<Rightarrow> (Inr (Some ed), scState s, scWarnings s)
      | Fail s err \<Rightarrow> (Inl err, scState s, scWarnings s))"

section \<open>Committing the selection\<close>

text \<open>An entry at the loop's top starts a new instance of it.\<close>

definition reset_loop :: "string \<Rightarrow> run_state \<Rightarrow> run_state" where
  "reset_loop name rs =
     (let rs1 = rs\<lparr>rsCounters := (rsCounters rs)(name := 0), rsProgressSig := (rsProgressSig rs)(name := None),
                   rsStaleness := (rsStaleness rs)(name := 0)\<rparr>
      in case rsPrevious rs1 of
           None \<Rightarrow> rs1
         | Some prv \<Rightarrow> rs1\<lparr>rsPrevious := Some (prv(name := None)), rsCurrent := (rsCurrent rs1)(name := None)\<rparr>)"

definition enter_loop :: "engine \<Rightarrow> edge \<Rightarrow> string \<times> loop \<Rightarrow> run_state \<Rightarrow> run_state" where
  "enter_loop e ed nl rs =
     (case nl of (name, l) \<Rightarrow>
        if eFrom ed \<in> set (lBody l) \<or> eTo ed \<notin> set (lBody l) then rs
        else if 0 < rsCounters rs name \<and> eTo ed \<notin> set (lEntries l) then rs
        else
          (let rs1 = markLoopBudget e name rs in
           if eTo ed \<notin> set (lEntries l) then rs1
           else if 0 < rsCounters rs1 name then reset_loop name rs1 else rs1))"

definition enter_loops :: "engine \<Rightarrow> edge \<Rightarrow> run_state \<Rightarrow> run_state" where
  "enter_loops e ed rs = (if eLoopName ed = [] then fold (enter_loop e ed) (wfLoops (eWorkflow e)) rs else rs)"

definition bump :: "string \<Rightarrow> run_state \<Rightarrow> run_state" where
  "bump name rs = rs\<lparr>rsCounters := (rsCounters rs)(name := rsCounters rs name + 1)\<rparr>"

definition advance_foreach :: "edge \<Rightarrow> run_state \<Rightarrow> run_state" where
  "advance_foreach ed rs = (if eForeachName ed = [] then rs else bump (foreachCounterKey (eForeachName ed)) rs)"

text \<open>The staged output becomes the previous one, and this one is staged.\<close>

definition rotate_outputs :: "string \<Rightarrow> out_map \<Rightarrow> run_state \<Rightarrow> run_state" where
  "rotate_outputs name out rs =
     (case rsPrevious rs of
        None \<Rightarrow> rs
      | Some prv \<Rightarrow>
          rs\<lparr>rsPrevious := Some (case rsCurrent rs name of Some staged \<Rightarrow> prv(name := Some staged) | None \<Rightarrow> prv),
             rsCurrent := (rsCurrent rs)(name := Some out)\<rparr>)"

definition cross_loop :: "engine \<Rightarrow> edge \<Rightarrow> out_map \<Rightarrow> run_state \<Rightarrow> run_state" where
  "cross_loop e ed out rs =
     (if eLoopName ed = [] then rs
      else rotate_outputs (eLoopName ed) out (markLoopBudget e (eLoopName ed) (bump (eLoopName ed) rs)))"

text \<open>The identity of an edge as the incoming record keeps it: without its compiled expression and its mappings.\<close>

definition incomingFromEdge :: "edge \<Rightarrow> edge" where
  "incomingFromEdge ed = ed\<lparr>eExpression := None, eWith := []\<rparr>"

definition setIncoming :: "edge \<Rightarrow> run_state \<Rightarrow> run_state" where
  "setIncoming ed rs =
     (let rs1 = rs\<lparr>rsIncoming := (rsIncoming rs)(eTo ed := Some [incomingFromEdge ed])\<rparr>
      in if eLoopName ed = [] \<and> eForeachName ed = [] then rs1\<lparr>rsSettled := (rsSettled rs1)(eTo ed := None)\<rparr> else rs1)"

definition commit :: "engine \<Rightarrow> edge \<Rightarrow> out_map \<Rightarrow> run_state \<Rightarrow> run_state" where
  "commit e ed out rs = setIncoming ed (cross_loop e ed out (advance_foreach ed (enter_loops e ed rs)))"

definition selectEdge :: "engine \<Rightarrow> string \<Rightarrow> out_map \<Rightarrow> run_state \<Rightarrow>
    (route_error, string) result \<times> run_state \<times> LoopDeclined list" where
  "selectEdge e nodeID out rs =
     (case evaluateEdges e nodeID out rs of
        (Inl err, rs1, ws) \<Rightarrow> (Inl err, rs1, ws)
      | (Inr None, rs1, ws) \<Rightarrow> (Inl (NoOutgoingEdge None), rs1, ws)
      | (Inr (Some ed), rs1, ws) \<Rightarrow> (Inr (eTo ed), commit e ed out rs1, ws))"

section \<open>Prices across a pause\<close>

definition loopBudgetMarksVersion :: int where
  "loopBudgetMarksVersion = 2"

text \<open>
  \<open>restoreCheckpointBudget\<close> after the accounting was restored: the marks a legacy checkpoint could only
  have guessed are dropped.
\<close>

definition dropGuessedMarks :: "engine \<Rightarrow> string \<Rightarrow> int \<Rightarrow> run_state \<Rightarrow> run_state" where
  "dropGuessedMarks e entry version rs =
     (if loopBudgetMarksVersion \<le> version then rs
      else rs\<lparr>rsMarks := (\<lambda>name. case rsMarks rs name of
               Some mark \<Rightarrow> if isRunStartBaseline mark \<and> \<not> loopHoldsEntry (loop_of e name) entry then None else Some mark
             | None \<Rightarrow> None)\<rparr>)"

text \<open>An empty mark is neither written nor read.\<close>

definition snapshotLoopBudgetMarks :: "run_state \<Rightarrow> string \<Rightarrow> (string \<times> f64) list option" where
  "snapshotLoopBudgetMarks rs name =
     (case rsMarks rs name of Some mark \<Rightarrow> if mark = [] then None else Some mark | None \<Rightarrow> None)"

definition restoreLoopBudgetMarks :: "(string \<Rightarrow> (string \<times> f64) list option) \<Rightarrow> run_state \<Rightarrow> run_state" where
  "restoreLoopBudgetMarks marks rs =
     rs\<lparr>rsMarks := (\<lambda>name. case marks name of
          Some mark \<Rightarrow> if mark = [] then rsMarks rs name else Some mark
        | None \<Rightarrow> rsMarks rs name)\<rparr>"

end
