(* ===== verification/EdgeSelectOk.thy ===== *)
theory EdgeSelectOk
  imports EdgeSelect
begin

text \<open>
  Facts of the routing model: what a selection reads, the verdict on one edge, the invariant of
  the scan, and what a commit moves.
\<close>

lemmas under_case = option.case_cong sum.case_cong list.case_cong gval.case_cong prod.case_cong ref_kind.case_cong if_cong

section \<open>The liveness monitor is read by nothing else\<close>

definition forget :: "run_state \<Rightarrow> run_state" where
  "forget rs = rs\<lparr>rsProgressSig := (\<lambda>_. None), rsStaleness := (\<lambda>_. 0)\<rparr>"

lemma forget_fields [simp]:
  "rsCounters (forget rs) = rsCounters rs" "rsOverrides (forget rs) = rsOverrides rs"
  "rsMarks (forget rs) = rsMarks rs" "rsSizes (forget rs) = rsSizes rs" "rsBudget (forget rs) = rsBudget rs"
  "rsNow (forget rs) = rsNow rs" "rsBranchLocal (forget rs) = rsBranchLocal rs"
  "rsPrevious (forget rs) = rsPrevious rs" "rsCurrent (forget rs) = rsCurrent rs"
  "rsRunID (forget rs) = rsRunID rs" "rsVars (forget rs) = rsVars rs" "rsRunInputs (forget rs) = rsRunInputs rs"
  "rsOutputs (forget rs) = rsOutputs rs" "rsArtifacts (forget rs) = rsArtifacts rs"
  "rsAttachments (forget rs) = rsAttachments rs" "rsEnclosingCounters (forget rs) = rsEnclosingCounters rs"
  "rsEnclosingPrevious (forget rs) = rsEnclosingPrevious rs" "rsStartedAt (forget rs) = rsStartedAt rs"
  "forget (forget rs) = forget rs"
  "forget (rs\<lparr>rsStaleness := a, rsProgressSig := b\<rparr>) = forget rs"
  by (simp_all add: forget_def)

lemma iterationCounters_forget [simp]: "iterationCounters (forget rs) = iterationCounters rs"
  by (rule ext) (simp add: iterationCounters_def)

lemma previousOutputView_forget [simp]: "previousOutputView (forget rs) = previousOutputView rs"
  by (rule ext) (simp add: previousOutputView_def cong: under_case)

lemma resolveLoopPath_forget [simp]: "resolveLoopPath m (forget rs) = resolveLoopPath m rs"
  by (rule ext) (simp add: resolveLoopPath_def cong: under_case)

lemma runNamespace_forget [simp]: "runNamespace e (forget rs) = runNamespace e rs"
  by (simp add: runNamespace_def run_status_def cong: under_case)

lemma resolveRunPath_forget [simp]: "resolveRunPath e (forget rs) = resolveRunPath e rs"
  by (rule ext) (simp add: resolveRunPath_def cong: under_case)

lemma output_read_forget [simp]: "output_read e (forget rs) = output_read e rs"
  by (rule ext) (simp add: output_read_def cong: under_case)

lemma exprContext_forget [simp]: "exprContext e m (forget rs) out = exprContext e m rs out"
  by (simp add: exprContext_def)

lemma attachment_read_forget [simp]: "attachment_read (forget rs) = attachment_read rs"
  by (rule ext) (simp add: attachment_read_def cong: under_case)

lemma resolveRef_forget [simp]: "resolveRef e m c (forget rs) r = resolveRef e m c rs r"
  by (simp add: resolveRef_def cong: under_case)

lemma collection_forget [simp]: "resolveForeachCollection e m (forget rs) k = resolveForeachCollection e m rs k"
proof (induction k)
  case (Suc k)
  show ?case
    by (rule ext) (simp add: Suc.IH cong: under_case)
qed (rule ext, simp)

lemma collectionOf_forget [simp]: "collectionOf e m (forget rs) = collectionOf e m rs"
  by (rule ext) (simp add: collectionOf_def)

lemma resolveLoopMaxChecked_forget [simp]: "resolveLoopMaxChecked e m (forget rs) l = resolveLoopMaxChecked e m rs l"
  by (simp add: resolveLoopMaxChecked_def resolveLoopMaxBase_def cong: under_case)

lemma maxReader_forget [simp]: "maxReader e (forget rs) k = maxReader e rs k"
  by (induction k) (simp_all cong: under_case)

lemma resolveLoopMax_forget [simp]: "resolveLoopMax e (forget rs) = resolveLoopMax e rs"
  by (simp add: resolveLoopMax_def)

lemma edgeWhenHolds_forget [simp]: "edgeWhenHolds e (forget rs) out ed ast = edgeWhenHolds e rs out ed ast"
  by (simp add: edgeWhenHolds_def)

lemma edgeConditionHolds_forget [simp]: "edgeConditionHolds e (forget rs) out ed = edgeConditionHolds e rs out ed"
  by (simp add: edgeConditionHolds_def cong: under_case)

lemma loopBudgetShortfall_forget [simp]: "loopBudgetShortfall e (forget rs) name = loopBudgetShortfall e rs name"
  by (simp add: loopBudgetShortfall_def prorated_sizes_def loopWorkSize_def cong: under_case)

lemma loopStalled_forget [simp]: "forget (snd (loopStalled e name out rs)) = forget rs"
  by (simp add: loopStalled_def Let_def)

text \<open>States that differ in the monitor alone answer every question alike.\<close>

lemma same_run:
  assumes "forget rs = forget rs'"
  shows "rsCounters rs = rsCounters rs'" "resolveLoopMax e rs = resolveLoopMax e rs'"
    "resolveLoopMaxChecked e m rs l = resolveLoopMaxChecked e m rs' l"
    "edgeConditionHolds e rs out ed = edgeConditionHolds e rs' out ed"
    "edgeWhenHolds e rs out ed ast = edgeWhenHolds e rs' out ed ast"
    "loopBudgetShortfall e rs name = loopBudgetShortfall e rs' name"
    "collectionOf e m rs = collectionOf e m rs'"
  by (metis assms forget_fields(1), metis assms resolveLoopMax_forget, metis assms resolveLoopMaxChecked_forget,
      metis assms edgeConditionHolds_forget, metis assms edgeWhenHolds_forget, metis assms loopBudgetShortfall_forget,
      metis assms collectionOf_forget)

lemma shortfall_stalled [simp]:
  "loopBudgetShortfall e (snd (loopStalled e name out rs)) n = loopBudgetShortfall e rs n"
  using loopStalled_forget same_run(6) by blast

end
