(* ===== verification/EdgeScan.thy ===== *)
theory EdgeScan
  imports EdgeSelectOk
begin

text \<open>
  The scan of a node's edges against a declarative reading: which edges are admissible, how they
  rank, and that the one pass keeps the first of the least rank.
\<close>

section \<open>Admissible edges and their rank\<close>

definition edge_loop :: "engine \<Rightarrow> edge \<Rightarrow> loop option" where
  "edge_loop e ed = (if eLoopName ed = [] then None else loop_of e (eLoopName ed))"

definition edge_foreach :: "engine \<Rightarrow> edge \<Rightarrow> foreach option" where
  "edge_foreach e ed = (if eForeachName ed = [] then None else map_of (wfForeaches (eWorkflow e)) (eForeachName ed))"

text \<open>The loop's counter reached its cap, or the simulation's bound on it.\<close>

definition at_cap :: "engine \<Rightarrow> run_state \<Rightarrow> string \<Rightarrow> loop \<Rightarrow> int \<Rightarrow> bool" where
  "at_cap e rs name l cap \<longleftrightarrow>
     cap \<le> rsCounters rs name \<or> 0 < eLoopCrossings e \<and> \<not> lUnbounded l \<and> eLoopCrossings e \<le> rsCounters rs name"

definition loop_cap :: "engine \<Rightarrow> run_state \<Rightarrow> loop \<Rightarrow> (cap_error, int) result" where
  "loop_cap e rs l = resolveLoopMaxChecked e (resolveLoopMax e rs) rs l"

definition loop_open :: "engine \<Rightarrow> run_state \<Rightarrow> string \<Rightarrow> loop \<Rightarrow> bool" where
  "loop_open e rs name l \<longleftrightarrow>
     (case loop_cap e rs l of Inl err \<Rightarrow> False | Inr cap \<Rightarrow> \<not> at_cap e rs name l cap \<and> loopBudgetShortfall e rs name = None)"

definition foreach_open :: "engine \<Rightarrow> run_state \<Rightarrow> edge \<Rightarrow> bool" where
  "foreach_open e rs ed \<longleftrightarrow>
     (case edge_foreach e ed of
        None \<Rightarrow> True
      | Some fe \<Rightarrow>
          (case collectionOf e (resolveLoopMax e rs) rs fe of
             None \<Rightarrow> False
           | Some coll \<Rightarrow> rsCounters rs (foreachCounterKey (eForeachName ed)) + 1 < int (length coll)))"

text \<open>A bare back-edge of a declared loop does not look at a foreach; no compiled edge has both.\<close>

definition admissible :: "engine \<Rightarrow> run_state \<Rightarrow> out_map \<Rightarrow> edge \<Rightarrow> bool" where
  "admissible e rs out ed \<longleftrightarrow>
     edgeConditionHolds e rs out ed \<and>
     (case edge_loop e ed of
        None \<Rightarrow> foreach_open e rs ed
      | Some l \<Rightarrow> loop_open e rs (eLoopName ed) l \<and> (unguarded ed \<and> \<not> eIsElse ed \<or> foreach_open e rs ed))"

definition edge_rank :: "engine \<Rightarrow> edge \<Rightarrow> nat" where
  "edge_rank e ed =
     (if \<not> unguarded ed then 0
      else if eIsElse ed then 2
      else if edge_loop e ed \<noteq> None \<or> edge_foreach e ed \<noteq> None then 1
      else 3)"

text \<open>Only an unbounded loop is watched for liveness.\<close>

definition may_stall :: "engine \<Rightarrow> edge \<Rightarrow> bool" where
  "may_stall e ed \<longleftrightarrow> (case edge_loop e ed of None \<Rightarrow> False | Some l \<Rightarrow> lUnbounded l)"

definition steady :: "engine \<Rightarrow> run_state \<Rightarrow> out_map \<Rightarrow> edge \<Rightarrow> bool" where
  "steady e rs out ed \<longleftrightarrow> admissible e rs out ed \<and> \<not> may_stall e ed"

definition loop_spent :: "engine \<Rightarrow> run_state \<Rightarrow> out_map \<Rightarrow> edge \<Rightarrow> bool" where
  "loop_spent e rs out ed \<longleftrightarrow>
     edgeConditionHolds e rs out ed \<and>
     (case edge_loop e ed of
        None \<Rightarrow> False
      | Some l \<Rightarrow> (case loop_cap e rs l of Inl err \<Rightarrow> False | Inr cap \<Rightarrow> at_cap e rs (eLoopName ed) l cap))"

text \<open>What the edge refers to can be read: its cap is an integer, its collection resolves.\<close>

definition resolves :: "engine \<Rightarrow> run_state \<Rightarrow> edge \<Rightarrow> bool" where
  "resolves e rs ed \<longleftrightarrow>
     (case edge_loop e ed of None \<Rightarrow> True | Some l \<Rightarrow> case loop_cap e rs l of Inl err \<Rightarrow> False | Inr cap \<Rightarrow> True) \<and>
     (case edge_foreach e ed of None \<Rightarrow> True | Some fe \<Rightarrow> collectionOf e (resolveLoopMax e rs) rs fe \<noteq> None)"

definition slot_entry :: "engine \<Rightarrow> run_state \<Rightarrow> out_map \<Rightarrow> edge \<Rightarrow> route_error option \<Rightarrow> bool" where
  "slot_entry e rs out ed err \<longleftrightarrow> 
     (case err of
        None \<Rightarrow> admissible e rs out ed
      | Some (CapFailure name c) \<Rightarrow> \<not> resolves e rs ed
      | Some other \<Rightarrow> False)"

fun read_error :: "route_error \<Rightarrow> bool" where
  "read_error (CapFailure name c) = True"
| "read_error StackOverflow = True"
| "read_error (LoopExhausted c) = False"
| "read_error (NoOutgoingEdge c) = False"

definition outgoing :: "engine \<Rightarrow> string \<Rightarrow> edge list" where
  "outgoing e nodeID = filter (\<lambda>ed. eFrom ed = nodeID) (wfEdges (eWorkflow e))"

lemmas edge_tests = admissible_def steady_def loop_spent_def loop_open_def foreach_open_def at_cap_def may_stall_def

lemma tests_same_run:
  assumes "forget rs = forget rs'"
  shows "admissible e rs out ed = admissible e rs' out ed" "loop_spent e rs out ed = loop_spent e rs' out ed"
    "steady e rs out ed = steady e rs' out ed" "resolves e rs ed = resolves e rs' ed"
    "slot_entry e rs out ed err = slot_entry e rs' out ed err"
proof -
  note same = same_run [OF assms]
  have "at_cap e rs = at_cap e rs'"
    by (intro ext) (simp add: at_cap_def same)
  then have "loop_open e rs = loop_open e rs'" "foreach_open e rs = foreach_open e rs'"
    by (intro ext; simp add: loop_open_def foreach_open_def loop_cap_def same cong: under_case)+
  then show "admissible e rs out ed = admissible e rs' out ed"
    by (simp add: admissible_def same cong: under_case)
  then show "steady e rs out ed = steady e rs' out ed"
    by (simp add: steady_def)
  show "resolves e rs ed = resolves e rs' ed"
    by (simp add: resolves_def loop_cap_def same cong: under_case)
  with \<open>admissible e rs out ed = admissible e rs' out ed\<close> show "slot_entry e rs out ed err = slot_entry e rs' out ed err"
    by (simp add: slot_entry_def split: option.split route_error.split)
  show "loop_spent e rs out ed = loop_spent e rs' out ed"
    by (simp add: loop_spent_def at_cap_def loop_cap_def same cong: under_case)
qed

lemma unguarded_holds [simp]: "unguarded ed \<Longrightarrow> edgeConditionHolds e rs out ed"
  by (simp add: unguarded_def edgeConditionHolds_def)

section \<open>The verdict on one edge\<close>

text \<open>Between two scans only a fallback slot, a note or the monitor changed.\<close>

definition kept_slots :: "scan \<Rightarrow> scan \<Rightarrow> bool" where
  "kept_slots s s1 \<longleftrightarrow> scLoop s1 = scLoop s \<and> scElse s1 = scElse s \<and> scUnconditional s1 = scUnconditional s"

lemma note_simps [simp]:
  "scState (noteDecline d s) = scState s" "scState (noteExhausted d s) = scState s" "scState (warn d s) = scState s"
  "scLoop (noteDecline d s) = scLoop s" "scLoop (noteExhausted d s) = scLoop s" "scLoop (warn d s) = scLoop s"
  "scElse (noteDecline d s) = scElse s" "scElse (noteExhausted d s) = scElse s" "scElse (warn d s) = scElse s"
  "scUnconditional (noteDecline d s) = scUnconditional s" "scUnconditional (noteExhausted d s) = scUnconditional s"
  "scUnconditional (warn d s) = scUnconditional s"
  "scExhausted (noteDecline d s) = scExhausted s" "scExhausted (noteExhausted d s)" "scExhausted (warn d s) = scExhausted s"
  "scCapDecline (noteDecline d s) = scCapDecline s" "scCapDecline (warn d s) = scCapDecline s"
  "scDeclined (noteExhausted d s) = scDeclined s" "scDeclined (warn d s) = scDeclined s"
  "scDeclined (noteDecline d s) \<noteq> None"
  by (simp_all add: noteDecline_def noteExhausted_def warn_def split: option.split)

lemma keep_simps [simp]:
  "scState (keep_loop ed err s) = scState s" "scState (keep_else ed err s) = scState s"
  "scElse (keep_loop ed err s) = scElse s" "scUnconditional (keep_loop ed err s) = scUnconditional s"
  "scLoop (keep_else ed err s) = scLoop s" "scUnconditional (keep_else ed err s) = scUnconditional s"
  "scLoop (keep_loop ed err s) = (if scLoop s = None then Some (ed, err) else scLoop s)"
  "scElse (keep_else ed err s) = (if scElse s = None then Some (ed, err) else scElse s)"
  "scExhausted (keep_loop ed err s) = scExhausted s" "scExhausted (keep_else ed err s) = scExhausted s"
  "scCapDecline (keep_loop ed err s) = scCapDecline s" "scCapDecline (keep_else ed err s) = scCapDecline s"
  "scDeclined (keep_loop ed err s) = scDeclined s" "scDeclined (keep_else ed err s) = scDeclined s"
  by (auto simp: keep_loop_def keep_else_def)

lemma and_next_simps [simp]:
  "and_next (FallThrough s) f = f s" "and_next (Continue s) f = Continue s"
  "and_next (Select s ed) f = Select s ed" "and_next (Fail s err) f = Fail s err"
  by (simp_all add: and_next_def)

text \<open>A steady edge is selected at once or offered to its slot.\<close>

lemma steady_loop_part:
  assumes "steady e (scState s) out ed"
  shows "loop_part e out ed s =
    (if unguarded ed \<and> \<not> eIsElse ed \<and> edge_loop e ed \<noteq> None then Continue (keep_loop ed None s) else FallThrough s)"
proof (cases "edge_loop e ed")
  case None
  then show ?thesis by (simp add: loop_part_def edge_loop_def split: if_splits)
next
  case (Some l)
  then have l: "eLoopName ed \<noteq> []" "loop_of e (eLoopName ed) = Some l" by (simp_all add: edge_loop_def split: if_splits)
  have "s\<lparr>scState := scState s\<rparr> = s" by simp
  with Some l assms show ?thesis
    by (auto simp: loop_part_def loop_edge_def edge_tests loop_cap_def Let_def split: sum.splits)
qed

lemma steady_foreach_part:
  assumes "steady e (scState s) out ed" "\<not> (unguarded ed \<and> \<not> eIsElse ed \<and> edge_loop e ed \<noteq> None)"
  shows "foreach_part e ed s =
    (if unguarded ed \<and> \<not> eIsElse ed \<and> edge_foreach e ed \<noteq> None then Continue (keep_loop ed None s) else FallThrough s)"
proof -
  have "foreach_open e (scState s) ed"
    using assms by (auto simp: steady_def admissible_def split: option.splits)
  then show ?thesis
    by (auto simp: foreach_part_def foreach_open_def edge_foreach_def split: option.splits if_splits)
qed

lemma steady_condition_part:
  assumes "edgeConditionHolds e (scState s) out ed"
  shows "condition_part e out ed s =
    (if \<not> unguarded ed then Select s ed
     else Continue (if eIsElse ed then keep_else ed None s
                    else if scUnconditional s = None then s\<lparr>scUnconditional := Some ed\<rparr> else s))"
  using assms
  by (auto simp: condition_part_def edgeConditionHolds_def unguarded_def split: option.splits sum.splits bool.splits if_splits)

lemma steady_scan_edge:
  assumes "steady e (scState s) out ed"
  shows "scan_edge e out ed s =
    (if edge_rank e ed = 0 then Select s ed
     else Continue (if edge_rank e ed = 1 then keep_loop ed None s
                    else if edge_rank e ed = 2 then keep_else ed None s
                    else if scUnconditional s = None then s\<lparr>scUnconditional := Some ed\<rparr> else s))"
proof -
  have "edgeConditionHolds e (scState s) out ed" using assms by (simp add: steady_def admissible_def)
  note parts = steady_loop_part [OF assms] steady_foreach_part [OF assms] steady_condition_part [OF this]
  show ?thesis
    by (cases "unguarded ed \<and> \<not> eIsElse ed \<and> edge_loop e ed \<noteq> None")
      (auto simp: scan_edge_def parts edge_rank_def)
qed

text \<open>What one edge can have changed, whatever its verdict.\<close>

definition slots_from :: "engine \<Rightarrow> out_map \<Rightarrow> edge \<Rightarrow> scan \<Rightarrow> scan \<Rightarrow> bool" where
  "slots_from e out ed s s1 \<longleftrightarrow>
     forget (scState s1) = forget (scState s) \<and>
     (scLoop s1 = scLoop s \<or>
        scLoop s = None \<and> edge_rank e ed = 1 \<and>
        (\<exists>err. scLoop s1 = Some (ed, err) \<and> slot_entry e (scState s) out ed err)) \<and>
     (scElse s1 = scElse s \<or>
        scElse s = None \<and> edge_rank e ed = 2 \<and>
        (\<exists>err. scElse s1 = Some (ed, err) \<and> slot_entry e (scState s) out ed err)) \<and>
     (scUnconditional s1 = scUnconditional s \<or>
        scUnconditional s = None \<and> edge_rank e ed = 3 \<and> scUnconditional s1 = Some ed \<and> admissible e (scState s) out ed)"

text \<open>The parts of an edge that were passed: its loop can be crossed, its foreach has an element left.\<close>

definition loop_passed :: "engine \<Rightarrow> run_state \<Rightarrow> out_map \<Rightarrow> edge \<Rightarrow> bool" where
  "loop_passed e rs out ed \<longleftrightarrow>
     (case edge_loop e ed of
        None \<Rightarrow> True
      | Some l \<Rightarrow> edgeConditionHolds e rs out ed \<longrightarrow> loop_open e rs (eLoopName ed) l \<and> (\<not> unguarded ed \<or> eIsElse ed))"

lemma loopStalled_state:
  "loopStalled e name out rs = (b, rs1) \<Longrightarrow> forget rs1 = forget rs"
  using loopStalled_forget [of e name out rs] by simp

lemma loop_part_cases:
  assumes "loop_part e out ed s = v"
  shows "case v of
      FallThrough s1 \<Rightarrow> slots_from e out ed s s1 \<and> kept_slots s s1 \<and> loop_passed e (scState s) out ed
    | Continue s1 \<Rightarrow> slots_from e out ed s s1
    | Select s1 x \<Rightarrow> False
    | Fail s1 err \<Rightarrow> forget (scState s1) = forget (scState s) \<and> \<not> resolves e (scState s) ed \<and> read_error err"
proof (cases "edge_loop e ed")
  case None
  with assms show ?thesis
    by (auto simp: loop_part_def edge_loop_def loop_passed_def slots_from_def kept_slots_def split: if_splits)
next
  case (Some l)
  then have l: "eLoopName ed \<noteq> []" "loop_of e (eLoopName ed) = Some l" by (simp_all add: edge_loop_def split: if_splits)
  show ?thesis
  proof (cases "edgeConditionHolds e (scState s) out ed")
    case False
    with assms l Some show ?thesis
      by (auto simp: loop_part_def loop_passed_def slots_from_def kept_slots_def)
  next
    case True
    define rs1 where "rs1 = snd (if lUnbounded l then loopStalled e (eLoopName ed) out (scState s) else (False, scState s))"
    have rs1: "forget rs1 = forget (scState s)" by (simp add: rs1_def)
    have sf: "loopBudgetShortfall e rs1 n = loopBudgetShortfall e (scState s) n" for n
      using same_run(6) [OF rs1] .
    from assms l True have v: "v = loop_edge e out ed l s" by (simp add: loop_part_def)
    show ?thesis
      unfolding v loop_edge_def Let_def case_prod_unfold
      by (simp add: rs1_def [symmetric] loop_cap_def [symmetric] sf split: sum.split option.split,
          auto simp: slots_from_def kept_slots_def loop_passed_def Some True rs1 sf loop_open_def at_cap_def edge_rank_def
            admissible_def slot_entry_def resolves_def)
  qed
qed

lemma foreach_part_cases:
  assumes "foreach_part e ed s = v" "loop_passed e (scState s) out ed"
  shows "case v of
      FallThrough s1 \<Rightarrow> s1 = s \<and> foreach_open e (scState s) ed \<and> (unguarded ed \<and> \<not> eIsElse ed \<longrightarrow> edge_foreach e ed = None)
    | Continue s1 \<Rightarrow> slots_from e out ed s s1
    | Select s1 x \<Rightarrow> False
    | Fail s1 err \<Rightarrow> s1 = s \<and> \<not> resolves e (scState s) ed \<and> read_error err"
proof (cases "edge_foreach e ed")
  case None
  with assms show ?thesis
    by (auto simp: foreach_part_def edge_foreach_def foreach_open_def split: if_splits)
next
  case (Some fe)
  then have fe: "eForeachName ed \<noteq> []" "map_of (wfForeaches (eWorkflow e)) (eForeachName ed) = Some fe"
    by (simp_all add: edge_foreach_def split: if_splits)
  show ?thesis
    using assms fe Some
    by (auto simp: foreach_part_def slots_from_def foreach_open_def edge_rank_def admissible_def loop_passed_def
        slot_entry_def resolves_def split: option.splits if_splits)
qed

lemma condition_part_cases:
  assumes "condition_part e out ed s = v" "loop_passed e (scState s) out ed" "foreach_open e (scState s) ed"
    and "unguarded ed \<and> \<not> eIsElse ed \<longrightarrow> edge_foreach e ed = None"
  shows "case v of
      Select s1 x \<Rightarrow> s1 = s \<and> x = ed \<and> edge_rank e ed = 0 \<and> admissible e (scState s) out ed
    | Continue s1 \<Rightarrow> slots_from e out ed s s1
    | _ \<Rightarrow> False"
proof -
  have adm: "edgeConditionHolds e (scState s) out ed \<Longrightarrow> admissible e (scState s) out ed"
    using assms(2, 3) by (auto simp: admissible_def loop_passed_def split: option.splits)
  have bare: "edge_loop e ed = None" if "unguarded ed" "\<not> eIsElse ed"
    using that assms(2) by (auto simp: loop_passed_def split: option.splits)
  show ?thesis
    using assms(1, 4) bare adm
    by (auto simp: condition_part_def edgeConditionHolds_def unguarded_def slots_from_def edge_rank_def slot_entry_def
        split: option.splits sum.splits bool.splits if_splits)
qed

lemma scan_edge_cases:
  assumes "scan_edge e out ed s = v"
  shows "case v of
      Select s1 x \<Rightarrow> x = ed \<and> edge_rank e ed = 0 \<and> admissible e (scState s) out ed \<and> forget (scState s1) = forget (scState s)
    | Continue s1 \<Rightarrow> slots_from e out ed s s1
    | Fail s1 err \<Rightarrow> forget (scState s1) = forget (scState s) \<and> \<not> resolves e (scState s) ed \<and> read_error err
    | FallThrough s1 \<Rightarrow> False"
proof (cases "loop_part e out ed s")
  case (FallThrough s1)
  from loop_part_cases [OF this]
  have s1: "slots_from e out ed s s1" "kept_slots s s1" "loop_passed e (scState s) out ed" by simp_all
  then have same: "forget (scState s1) = forget (scState s)" by (simp add: slots_from_def)
  note tests = tests_same_run [OF same]
  have passed: "loop_passed e (scState s1) out ed"
    using s1(3) by (simp add: loop_passed_def same_run [OF same] loop_open_def at_cap_def loop_cap_def cong: under_case)
  have chain: "slots_from e out ed s1 s2 \<Longrightarrow> slots_from e out ed s s2" for s2
    using s1 same by (auto simp: slots_from_def kept_slots_def tests)
  show ?thesis
  proof (cases "foreach_part e ed s1")
    case (FallThrough s2)
    from foreach_part_cases [OF this passed]
    have s2: "s2 = s1" "foreach_open e (scState s1) ed" "unguarded ed \<and> \<not> eIsElse ed \<longrightarrow> edge_foreach e ed = None" by simp_all
    have "v = condition_part e out ed s1"
      using assms \<open>loop_part e out ed s = FallThrough s1\<close> FallThrough s2 by (simp add: scan_edge_def)
    with condition_part_cases [OF _ passed s2(2, 3), of v] show ?thesis
      using chain tests same by (auto split: verdict.splits)
  next
    case (Continue s2)
    with foreach_part_cases [OF this passed] chain assms FallThrough show ?thesis
      by (auto simp: scan_edge_def)
  next
    case (Select s2 x)
    with foreach_part_cases [OF this passed] show ?thesis by simp
  next
    case (Fail s2 err)
    with foreach_part_cases [OF this passed] same assms FallThrough tests show ?thesis
      by (auto simp: scan_edge_def)
  qed
next
  case (Continue s1)
  from loop_part_cases [OF this] assms this show ?thesis by (auto simp: scan_edge_def)
next
  case (Select s1 x)
  from loop_part_cases [OF this] show ?thesis by simp
next
  case (Fail s1 err)
  from loop_part_cases [OF this] assms this show ?thesis by (auto simp: scan_edge_def)
qed

text \<open>The notes on spent loops.\<close>

definition notes_from :: "engine \<Rightarrow> out_map \<Rightarrow> edge \<Rightarrow> scan \<Rightarrow> scan \<Rightarrow> bool" where
  "notes_from e out ed s s1 \<longleftrightarrow>
     (scExhausted s1 \<longleftrightarrow> scExhausted s \<or> loop_spent e (scState s) out ed) \<and>
     (scCapDecline s1 = scCapDecline s \<and> (scExhausted s \<or> \<not> scExhausted s1) \<or>
        loop_spent e (scState s) out ed \<and>
        (\<exists>d. scCapDecline s1 = Some d \<and> ldLoop d = eLoopName ed \<and>
             ldReason d \<in> {LoopCap, LoopOutOfFuel, SimulationCrossings}))"

lemma loop_part_notes:
  assumes "loop_part e out ed s = v"
  shows "case v of
      FallThrough s1 \<Rightarrow> notes_from e out ed s s1 \<and> scExhausted s1 = scExhausted s \<and> scCapDecline s1 = scCapDecline s
    | Continue s1 \<Rightarrow> notes_from e out ed s s1
    | _ \<Rightarrow> True"
proof (cases "edge_loop e ed")
  case None
  with assms show ?thesis
    by (auto simp: loop_part_def edge_loop_def notes_from_def loop_spent_def split: if_splits verdict.splits)
next
  case (Some l)
  then have l: "eLoopName ed \<noteq> []" "loop_of e (eLoopName ed) = Some l" by (simp_all add: edge_loop_def split: if_splits)
  show ?thesis
  proof (cases "edgeConditionHolds e (scState s) out ed")
    case False
    with assms l show ?thesis
      by (auto simp: loop_part_def notes_from_def loop_spent_def)
  next
    case True
    from assms l True have v: "v = loop_edge e out ed l s" by (simp add: loop_part_def)
    show ?thesis
      unfolding v loop_edge_def Let_def case_prod_unfold
      by (simp add: loop_cap_def [symmetric] split: sum.split option.split,
          auto simp: notes_from_def loop_spent_def at_cap_def Some True noteExhausted_def warn_def)
  qed
qed

lemma later_parts_notes:
  "foreach_part e ed s = Continue s1 \<Longrightarrow> scExhausted s1 = scExhausted s \<and> scCapDecline s1 = scCapDecline s"
  "foreach_part e ed s = FallThrough s1 \<Longrightarrow> scExhausted s1 = scExhausted s \<and> scCapDecline s1 = scCapDecline s"
  "condition_part e out ed s = Continue s1 \<Longrightarrow> scExhausted s1 = scExhausted s \<and> scCapDecline s1 = scCapDecline s"
  by (auto simp: foreach_part_def condition_part_def split: option.splits if_splits sum.splits bool.splits)

lemma scan_edge_notes:
  assumes "scan_edge e out ed s = Continue s1"
  shows "notes_from e out ed s s1"
proof (cases "loop_part e out ed s")
  case (FallThrough s2)
  with assms have "scExhausted s1 = scExhausted s2 \<and> scCapDecline s1 = scCapDecline s2"
    by (cases "foreach_part e ed s2") (auto simp: scan_edge_def dest!: later_parts_notes)
  with loop_part_notes [OF FallThrough] show ?thesis by (auto simp: notes_from_def)
next
  case (Continue s2)
  with assms loop_part_notes [OF Continue] show ?thesis by (simp add: scan_edge_def)
qed (use assms in \<open>simp_all add: scan_edge_def\<close>)

section \<open>The scan\<close>

definition none_ranked :: "engine \<Rightarrow> run_state \<Rightarrow> out_map \<Rightarrow> nat \<Rightarrow> edge list \<Rightarrow> bool" where
  "none_ranked e rs out r eds \<longleftrightarrow> (\<forall>x \<in> set eds. steady e rs out x \<longrightarrow> edge_rank e x \<noteq> r)"

text \<open>The slot of a rank over the edges read: empty only when no steady edge had the rank, else one before them all.\<close>

definition slot_ok :: "engine \<Rightarrow> run_state \<Rightarrow> out_map \<Rightarrow> nat \<Rightarrow> edge list \<Rightarrow> (edge \<times> route_error option) option \<Rightarrow> bool" where
  "slot_ok e rs out r eds slot \<longleftrightarrow>
     (case slot of
        None \<Rightarrow> none_ranked e rs out r eds
      | Some (x, err) \<Rightarrow>
          edge_rank e x = r \<and> slot_entry e rs out x err \<and>
          (\<exists>p q. eds = p @ x # q \<and> none_ranked e rs out r p))"

definition scan_ok :: "engine \<Rightarrow> run_state \<Rightarrow> out_map \<Rightarrow> edge list \<Rightarrow> scan \<Rightarrow> bool" where
  "scan_ok e rs out eds s \<longleftrightarrow>
     forget (scState s) = forget rs \<and> none_ranked e rs out 0 eds \<and>
     slot_ok e rs out 1 eds (scLoop s) \<and> slot_ok e rs out 2 eds (scElse s) \<and>
     slot_ok e rs out 3 eds (map_option (\<lambda>x. (x, None)) (scUnconditional s)) \<and>
     (scExhausted s \<longleftrightarrow> (\<exists>x \<in> set eds. loop_spent e rs out x)) \<and>
     (\<forall>d. scExhausted s \<longrightarrow> scCapDecline s = Some d \<longrightarrow> (\<exists>x \<in> set eds. loop_spent e rs out x \<and> ldLoop d = eLoopName x \<and>
         ldReason d \<in> {LoopCap, LoopOutOfFuel, SimulationCrossings})) \<and>
     (scExhausted s \<longrightarrow> scCapDecline s \<noteq> None)"

lemma none_ranked_snoc [simp]:
  "none_ranked e rs out r (eds @ [x]) \<longleftrightarrow> none_ranked e rs out r eds \<and> (steady e rs out x \<longrightarrow> edge_rank e x \<noteq> r)"
  by (auto simp: none_ranked_def)

lemma slot_snoc:
  assumes "slot_ok e rs out r eds slot" "\<lbrakk>slot = None; steady e rs out x\<rbrakk> \<Longrightarrow> edge_rank e x \<noteq> r"
  shows "slot_ok e rs out r (eds @ [x]) slot"
proof (cases slot)
  case (Some y)
  obtain z err where z: "y = (z, err)" by (cases y)
  with Some assms(1) obtain p q where "eds = p @ z # q" "none_ranked e rs out r p"
    by (auto simp: slot_ok_def)
  then have "eds @ [x] = p @ z # (q @ [x]) \<and> none_ranked e rs out r p" by simp
  with Some z assms(1) show ?thesis unfolding slot_ok_def by fastforce
qed (use assms in \<open>simp add: slot_ok_def\<close>)

lemma slot_step:
  assumes "slot_ok e rs out r eds slot"
    and "slot1 = slot \<or> slot = None \<and> edge_rank e x = r \<and> (\<exists>err. slot1 = Some (x, err) \<and> slot_entry e rs out x err)"
    and "steady e rs out x \<Longrightarrow> edge_rank e x = r \<Longrightarrow> slot1 \<noteq> None"
  shows "slot_ok e rs out r (eds @ [x]) slot1"
  using assms(2)
proof
  assume "slot1 = slot"
  with assms(1, 3) show ?thesis by (auto intro: slot_snoc)
next
  assume "slot = None \<and> edge_rank e x = r \<and> (\<exists>err. slot1 = Some (x, err) \<and> slot_entry e rs out x err)"
  then obtain err where err: "slot = None" "edge_rank e x = r" "slot1 = Some (x, err)"
    "slot_entry e rs out x err" by blast
  have "eds @ [x] = eds @ x # []" by simp
  with err assms(1) show ?thesis unfolding slot_ok_def by fastforce
qed

lemma scan_ok_start: "scan_ok e rs out [] (start_scan rs)"
  by (simp add: scan_ok_def start_scan_def slot_ok_def none_ranked_def)

lemma scan_ok_step:
  assumes ok: "scan_ok e rs out eds s" and step: "scan_edge e out x s = Continue s1"
  shows "scan_ok e rs out (eds @ [x]) s1"
proof -
  from ok have same: "forget (scState s) = forget rs" by (simp add: scan_ok_def)
  note tests = tests_same_run [OF same]
  from scan_edge_cases [OF step] have slots: "slots_from e out x s s1" by simp
  from scan_edge_notes [OF step] have noted: "notes_from e out x s s1" .
  have zero: "edge_rank e x \<noteq> 0" if "steady e rs out x"
    using steady_scan_edge [of e s out x] that step by (auto simp: tests split: if_splits)
  have filled: "edge_rank e x = 1 \<longrightarrow> scLoop s1 \<noteq> None" "edge_rank e x = 2 \<longrightarrow> scElse s1 \<noteq> None"
    "edge_rank e x = 3 \<longrightarrow> scUnconditional s1 \<noteq> None" if "steady e rs out x"
    using steady_scan_edge [of e s out x] that step by (auto simp: tests split: if_splits)
  have loop: "slot_ok e rs out 1 (eds @ [x]) (scLoop s1)"
  proof (rule slot_step)
    show "slot_ok e rs out 1 eds (scLoop s)" using ok by (simp add: scan_ok_def)
    show "scLoop s1 = scLoop s \<or> scLoop s = None \<and> edge_rank e x = 1 \<and>
        (\<exists>err. scLoop s1 = Some (x, err) \<and> slot_entry e rs out x err)"
      using slots unfolding slots_from_def tests by blast
  qed (use filled(1) in blast)
  have els: "slot_ok e rs out 2 (eds @ [x]) (scElse s1)"
  proof (rule slot_step)
    show "slot_ok e rs out 2 eds (scElse s)" using ok by (simp add: scan_ok_def)
    show "scElse s1 = scElse s \<or> scElse s = None \<and> edge_rank e x = 2 \<and>
        (\<exists>err. scElse s1 = Some (x, err) \<and> slot_entry e rs out x err)"
      using slots unfolding slots_from_def tests by blast
  qed (use filled(2) in blast)
  have bare: "slot_ok e rs out 3 (eds @ [x]) (map_option (\<lambda>x. (x, None)) (scUnconditional s1))"
  proof (rule slot_step)
    show "slot_ok e rs out 3 eds (map_option (\<lambda>x. (x, None)) (scUnconditional s))" using ok by (simp add: scan_ok_def)
    show "map_option (\<lambda>x. (x, None)) (scUnconditional s1) = map_option (\<lambda>x. (x, None)) (scUnconditional s) \<or>
        map_option (\<lambda>x. (x, None)) (scUnconditional s) = None \<and> edge_rank e x = 3 \<and>
        (\<exists>err. map_option (\<lambda>x. (x, None)) (scUnconditional s1) = Some (x, err) \<and> slot_entry e rs out x err)"
      using slots unfolding slots_from_def tests by (auto simp: slot_entry_def)
  qed (use filled(3) in auto)
  have "forget (scState s1) = forget rs" using slots same by (simp add: slots_from_def)
  moreover have "none_ranked e rs out 0 (eds @ [x])" using ok zero by (auto simp: scan_ok_def)
  moreover have "scExhausted s1 \<longleftrightarrow> (\<exists>y \<in> set (eds @ [x]). loop_spent e rs out y)"
    using noted ok by (auto simp: notes_from_def scan_ok_def tests)
  moreover have "\<exists>y \<in> set (eds @ [x]). loop_spent e rs out y \<and> ldLoop d = eLoopName y \<and>
      ldReason d \<in> {LoopCap, LoopOutOfFuel, SimulationCrossings}"
    if "scExhausted s1" "scCapDecline s1 = Some d" for d
    using noted ok that by (auto simp: notes_from_def scan_ok_def tests)
  moreover have "scExhausted s1 \<longrightarrow> scCapDecline s1 \<noteq> None"
    using noted ok by (auto simp: notes_from_def scan_ok_def)
  ultimately show ?thesis using loop els bare unfolding scan_ok_def by blast
qed

lemma scan_edges_cases:
  assumes "scan_ok e rs out pre s"
  shows "case scan_edges e out eds s of
      Continue s1 \<Rightarrow> scan_ok e rs out (pre @ eds) s1
    | Select s1 x \<Rightarrow> forget (scState s1) = forget rs \<and> edge_rank e x = 0 \<and> admissible e rs out x \<and>
        (\<exists>p q. eds = p @ x # q \<and> none_ranked e rs out 0 (pre @ p))
    | Fail s1 err \<Rightarrow> forget (scState s1) = forget rs \<and> (\<exists>x \<in> set eds. \<not> resolves e rs x) \<and> read_error err
    | FallThrough s1 \<Rightarrow> False"
  using assms
proof (induction eds arbitrary: pre s)
  case (Cons x eds)
  from Cons.prems have same: "forget (scState s) = forget rs" by (simp add: scan_ok_def)
  note tests = tests_same_run [OF same]
  show ?case
  proof (cases "scan_edge e out x s")
    case (Continue s1)
    from Cons.IH [OF scan_ok_step [OF Cons.prems Continue]]
    have tail: "case scan_edges e out eds s1 of
        Continue s1 \<Rightarrow> scan_ok e rs out ((pre @ [x]) @ eds) s1
      | Select s1 y \<Rightarrow> forget (scState s1) = forget rs \<and> edge_rank e y = 0 \<and> admissible e rs out y \<and>
          (\<exists>p q. eds = p @ y # q \<and> none_ranked e rs out 0 ((pre @ [x]) @ p))
      | Fail s1 err \<Rightarrow> forget (scState s1) = forget rs \<and> (\<exists>x \<in> set eds. \<not> resolves e rs x) \<and> read_error err
      | FallThrough s1 \<Rightarrow> False" .
    have "\<exists>p q. x # eds = p @ y # q \<and> none_ranked e rs out 0 (pre @ p)"
      if "eds = p @ y # q" "none_ranked e rs out 0 ((pre @ [x]) @ p)" for y p q
      using that by (intro exI [of _ "x # p"] exI [of _ q]) simp
    with tail Continue show ?thesis by (auto split: verdict.splits)
  next
    case (FallThrough s1)
    with scan_edge_cases [OF FallThrough] show ?thesis by simp
  next
    case (Select s1 y)
    with scan_edge_cases [OF Select] Cons.prems same tests show ?thesis
      by (auto simp: scan_ok_def intro: exI [of _ "[]"])
  next
    case (Fail s1 err)
    with scan_edge_cases [OF Fail] same tests show ?thesis by simp
  qed
qed simp

section \<open>The outcome\<close>

text \<open>The first edge of the least rank, and no steady one before it.\<close>

definition first_choice :: "engine \<Rightarrow> run_state \<Rightarrow> out_map \<Rightarrow> edge list \<Rightarrow> edge \<Rightarrow> bool" where
  "first_choice e rs out eds x \<longleftrightarrow>
     admissible e rs out x \<and>
     (\<exists>p q. eds = p @ x # q \<and>
        (\<forall>y \<in> set p. steady e rs out y \<longrightarrow> edge_rank e x < edge_rank e y) \<and>
        (\<forall>y \<in> set q. steady e rs out y \<longrightarrow> edge_rank e x \<le> edge_rank e y))"

lemma rank_cases: "edge_rank e x = 0 \<or> edge_rank e x = 1 \<or> edge_rank e x = 2 \<or> edge_rank e x = 3"
  by (simp add: edge_rank_def)

lemma first_choice_of_slot:
  assumes "slot_ok e rs out r eds (Some (x, None))" "\<And>k. k < r \<Longrightarrow> none_ranked e rs out k eds"
  shows "first_choice e rs out eds x"
proof -
  from assms(1) obtain p q where pq: "eds = p @ x # q" "none_ranked e rs out r p" "edge_rank e x = r"
    "admissible e rs out x" by (auto simp: slot_ok_def slot_entry_def)
  have "r < edge_rank e y" if "y \<in> set p" "steady e rs out y" for y
  proof -
    have "\<not> edge_rank e y < r"
    proof
      assume "edge_rank e y < r"
      from assms(2) [OF this] pq(1) that show False by (auto simp: none_ranked_def)
    qed
    moreover have "edge_rank e y \<noteq> r" using pq(2) that by (auto simp: none_ranked_def)
    ultimately show ?thesis by simp
  qed
  moreover have "r \<le> edge_rank e y" if "y \<in> set q" "steady e rs out y" for y
  proof (rule ccontr)
    assume "\<not> r \<le> edge_rank e y"
    then have "edge_rank e y < r" by simp
    from assms(2) [OF this] pq(1) that show False by (auto simp: none_ranked_def)
  qed
  ultimately show ?thesis
    using pq unfolding first_choice_def by blast
qed

lemma slot_error:
  assumes "slot_ok e rs out r eds (Some (x, Some err))"
  shows "(\<exists>y \<in> set eds. \<not> resolves e rs y) \<and> (\<exists>name c. err = CapFailure name c)"
  using assms by (cases err) (auto simp: slot_ok_def slot_entry_def)

lemma all_slots_empty:
  assumes ok: "scan_ok e rs out eds s" and none: "scLoop s = None" "scElse s = None" "scUnconditional s = None"
  shows "\<forall>x \<in> set eds. \<not> steady e rs out x"
proof
  fix x assume x: "x \<in> set eds"
  have "none_ranked e rs out 0 eds" "none_ranked e rs out 1 eds" "none_ranked e rs out 2 eds" "none_ranked e rs out 3 eds"
    using ok none by (simp_all add: scan_ok_def slot_ok_def)
  with x rank_cases [of e x] show "\<not> steady e rs out x" by (auto simp: none_ranked_def)
qed

text \<open>What the scan's end is read as.\<close>

fun outcome_ok :: "engine \<Rightarrow> run_state \<Rightarrow> out_map \<Rightarrow> edge list \<Rightarrow> (route_error, edge option) result \<Rightarrow> bool" where
  "outcome_ok e rs out eds (Inr (Some x)) = first_choice e rs out eds x"
| "outcome_ok e rs out eds (Inr None) \<longleftrightarrow>
     (\<forall>x \<in> set eds. \<not> steady e rs out x \<and> \<not> loop_spent e rs out x)"
| "outcome_ok e rs out eds (Inl (LoopExhausted c)) \<longleftrightarrow>
     (\<forall>x \<in> set eds. \<not> steady e rs out x) \<and> (\<exists>x \<in> set eds. loop_spent e rs out x) \<and>
     (\<forall>d. c = Some d \<longrightarrow> (\<exists>x \<in> set eds. loop_spent e rs out x \<and> ldLoop d = eLoopName x \<and>
        ldReason d \<in> {LoopCap, LoopOutOfFuel, SimulationCrossings}))"
| "outcome_ok e rs out eds (Inl (NoOutgoingEdge c)) \<longleftrightarrow>
     (\<forall>x \<in> set eds. \<not> steady e rs out x \<and> \<not> loop_spent e rs out x)"
| "outcome_ok e rs out eds (Inl err) \<longleftrightarrow> (\<exists>x \<in> set eds. \<not> resolves e rs x)"

lemma slot_outcome:
  assumes "slot_ok e rs out r eds (Some (x, err))" "\<And>k. k < r \<Longrightarrow> none_ranked e rs out k eds"
  shows "outcome_ok e rs out eds (case err of Some er \<Rightarrow> Inl er | None \<Rightarrow> Inr (Some x))"
proof (cases err)
  case None
  with first_choice_of_slot [OF _ assms(2)] assms(1) show ?thesis by simp
next
  case (Some er)
  with slot_error assms(1) show ?thesis by fastforce
qed

lemma fallback_ok:
  assumes ok: "scan_ok e rs out eds s"
  shows "outcome_ok e rs out eds (fallback s)"
proof -
  note parts = ok [unfolded scan_ok_def]
  show ?thesis
  proof (cases "scLoop s")
    case (Some xe)
    obtain x err where xe: "xe = (x, err)" by (cases xe)
    have "outcome_ok e rs out eds (case err of Some er \<Rightarrow> Inl er | None \<Rightarrow> Inr (Some x))"
      using parts Some xe by (intro slot_outcome [of _ _ _ 1]) simp_all
    with Some xe show ?thesis by (simp add: fallback_def split: option.splits)
  next
    case noLoop: None
    then have one: "none_ranked e rs out k eds" if "k < 2" for k
      using parts that by (cases "k = 0") (auto simp: slot_ok_def less_2_cases_iff)
    show ?thesis
    proof (cases "scElse s")
      case (Some xe)
      obtain x err where xe: "xe = (x, err)" by (cases xe)
      have "outcome_ok e rs out eds (case err of Some er \<Rightarrow> Inl er | None \<Rightarrow> Inr (Some x))"
        using parts Some xe one by (intro slot_outcome [of _ _ _ 2]) simp_all
      with noLoop Some xe show ?thesis by (simp add: fallback_def split: option.splits)
    next
      case noElse: None
      have two: "none_ranked e rs out k eds" if "k < 3" for k
        using parts that one [of k] noElse by (cases "k = 2") (auto simp: slot_ok_def)
      show ?thesis
      proof (cases "scUnconditional s")
        case (Some x)
        have "outcome_ok e rs out eds (case None of Some er \<Rightarrow> Inl er | None \<Rightarrow> Inr (Some x))"
          using parts Some two by (intro slot_outcome [of _ _ _ 3]) simp_all
        with noLoop noElse Some show ?thesis by (simp add: fallback_def)
      next
        case None
        with all_slots_empty [OF ok noLoop noElse] have "\<forall>x \<in> set eds. \<not> steady e rs out x" by simp
        with noLoop noElse None parts show ?thesis
          by (auto simp: fallback_def declineCause_def)
      qed
    qed
  qed
qed

lemma evaluateEdges_ok:
  assumes "evaluateEdges e nodeID out rs = (r, rs1, ws)"
  shows "outcome_ok e rs out (outgoing e nodeID) r" "forget rs1 = forget rs"
proof -
  note scan = scan_edges_cases [OF scan_ok_start, of e rs out "outgoing e nodeID", simplified]
  have "outcome_ok e rs out (outgoing e nodeID) r \<and> forget rs1 = forget rs"
  proof (cases "scan_edges e out (outgoing e nodeID) (start_scan rs)")
    case (Continue s1)
    with scan have ok: "scan_ok e rs out (outgoing e nodeID) s1" by simp
    with fallback_ok [OF ok] Continue assms show ?thesis
      by (auto simp: evaluateEdges_def outgoing_def scan_ok_def)
  next
    case (Select s1 x)
    with scan have x: "forget (scState s1) = forget rs" "edge_rank e x = 0" "admissible e rs out x"
      "\<exists>p q. outgoing e nodeID = p @ x # q \<and> none_ranked e rs out 0 p" by simp_all
    then have "first_choice e rs out (outgoing e nodeID) x"
      by (auto simp: first_choice_def none_ranked_def)
    with x Select assms show ?thesis by (auto simp: evaluateEdges_def outgoing_def)
  next
    case (Fail s1 err)
    with scan have "forget (scState s1) = forget rs" "\<exists>x \<in> set (outgoing e nodeID). \<not> resolves e rs x" "read_error err"
      by simp_all
    with Fail assms show ?thesis by (cases err) (auto simp: evaluateEdges_def outgoing_def)
  qed (use scan in simp)
  then show "outcome_ok e rs out (outgoing e nodeID) r" "forget rs1 = forget rs" by simp_all
qed

text \<open>Where every edge can be read and no loop is unbounded, the scan is the stable sort by rank.\<close>

lemma hd_insort_key_less: "xs \<noteq> [] \<Longrightarrow> f (hd xs) < f a \<Longrightarrow> hd (insort_key f a xs) = hd xs"
  by (cases xs) auto

lemma insort_key_nonempty [simp]: "insort_key f a xs \<noteq> []"
  by (cases xs) auto

lemma hd_sort_key_first:
  assumes "\<forall>y \<in> set p. f x < f y" "\<forall>y \<in> set q. f x \<le> f y"
  shows "hd (sort_key f (p @ x # q)) = x"
  using assms(1)
proof (induction p)
  case Nil
  have "insort_key f x ys = x # ys" if "\<forall>y \<in> set ys. f x \<le> f y" for ys
    using that by (cases ys) auto
  with assms(2) show ?case by simp
next
  case (Cons a p)
  then have "hd (sort_key f (p @ x # q)) = x" by simp
  moreover have "sort_key f (p @ x # q) \<noteq> []"
    by (metis append_is_Nil_conv length_0_conv length_sort list.distinct(1))
  ultimately show ?case using Cons.prems by (simp add: hd_insort_key_less)
qed

end
