(* ===== verification/EdgeRun.thy ===== *)
theory EdgeRun
  imports EdgeScan
begin

text \<open>
  Runs: nodes execute, edges are selected and committed. What a commit does to the counters and
  snapshots, and the invariants of every run.
\<close>

section \<open>What a commit moves\<close>

lemma markLoopBudget_keeps [simp]:
  "rsCounters (markLoopBudget e name rs) = rsCounters rs" "rsPrevious (markLoopBudget e name rs) = rsPrevious rs"
  "rsCurrent (markLoopBudget e name rs) = rsCurrent rs" "rsOverrides (markLoopBudget e name rs) = rsOverrides rs"
  "rsBranchLocal (markLoopBudget e name rs) = rsBranchLocal rs"
  by (simp_all add: markLoopBudget_def Let_def split: option.split)

text \<open>The edge enters the loop at its top.\<close>

definition reenters :: "engine \<Rightarrow> edge \<Rightarrow> string \<times> loop \<Rightarrow> bool" where
  "reenters e ed nl \<longleftrightarrow>
     eLoopName ed = [] \<and> eFrom ed \<notin> set (lBody (snd nl)) \<and> eTo ed \<in> set (lBody (snd nl)) \<and> eTo ed \<in> set (lEntries (snd nl))"

definition enters_loop :: "engine \<Rightarrow> edge \<Rightarrow> string \<Rightarrow> bool" where
  "enters_loop e ed name \<longleftrightarrow> (\<exists>l. (name, l) \<in> set (wfLoops (eWorkflow e)) \<and> reenters e ed (name, l))"

text \<open>What routing owns for one loop: its counter and its two snapshots.\<close>

definition loop_view :: "string \<Rightarrow> run_state \<Rightarrow> int \<times> out_map option option \<times> out_map option" where
  "loop_view name rs = (rsCounters rs name, map_option (\<lambda>prv. prv name) (rsPrevious rs), rsCurrent rs name)"

definition cleared :: "run_state \<Rightarrow> int \<times> out_map option option \<times> out_map option \<Rightarrow> int \<times> out_map option option \<times> out_map option" where
  "cleared rs v = (if 0 < fst v then (0, map_option (\<lambda>_. None) (rsPrevious rs), if rsPrevious rs = None then snd (snd v) else None) else v)"

lemma enter_loop_other: "fst nl \<noteq> name \<Longrightarrow> loop_view name (enter_loop e ed nl rs) = loop_view name rs"
  by (auto simp: enter_loop_def reset_loop_def loop_view_def Let_def split: prod.split option.split)

lemma enter_loop_self:
  assumes "eLoopName ed = []"
  shows "loop_view (fst nl) (enter_loop e ed nl rs) =
    (if reenters e ed nl then cleared rs (loop_view (fst nl) rs) else loop_view (fst nl) rs)"
  using assms
  by (auto simp: enter_loop_def reset_loop_def loop_view_def reenters_def cleared_def Let_def split: prod.split option.split)

lemma enter_loop_nil [simp]: "(rsPrevious (enter_loop e ed nl rs) = None) = (rsPrevious rs = None)"
  by (auto simp: enter_loop_def reset_loop_def Let_def split: prod.split option.split)

lemma cleared_twice: "rsPrevious rs = None \<longleftrightarrow> rsPrevious rs' = None \<Longrightarrow> cleared rs' (cleared rs v) = cleared rs v"
  by (simp add: cleared_def)

lemma enter_fold:
  assumes "eLoopName ed = []"
  shows "loop_view name (fold (enter_loop e ed) nls rs) =
      (if \<exists>l. (name, l) \<in> set nls \<and> reenters e ed (name, l) then cleared rs (loop_view name rs) else loop_view name rs) \<and>
    (rsPrevious (fold (enter_loop e ed) nls rs) = None) = (rsPrevious rs = None)"
proof (induction nls arbitrary: rs)
  case (Cons nl nls)
  show ?case
  proof (cases "fst nl = name")
    case True
    then obtain l where nl: "nl = (name, l)" by (cases nl) auto
    have nil: "(rsPrevious (enter_loop e ed nl rs) = None) = (rsPrevious rs = None)" by simp
    have view: "loop_view name (enter_loop e ed nl rs) = (if reenters e ed nl then cleared rs (loop_view name rs) else loop_view name rs)"
      using enter_loop_self [OF assms, of nl e rs] True by simp
    have c: "cleared (enter_loop e ed nl rs) v = cleared rs v" for v
      using nil by (cases "rsPrevious rs"; cases "rsPrevious (enter_loop e ed nl rs)") (auto simp: cleared_def)
    show ?thesis
      using Cons.IH [of "enter_loop e ed nl rs"] view c nl by (auto simp: cleared_def)
  next
    case False
    have nil: "(rsPrevious (enter_loop e ed nl rs) = None) = (rsPrevious rs = None)" by simp
    have c: "cleared (enter_loop e ed nl rs) v = cleared rs v" for v
      using nil by (cases "rsPrevious rs"; cases "rsPrevious (enter_loop e ed nl rs)") (auto simp: cleared_def)
    show ?thesis
      using Cons.IH [of "enter_loop e ed nl rs"] enter_loop_other [OF False, of e ed rs] False c by auto
  qed
qed simp

lemma enter_loops_view:
  "loop_view name (enter_loops e ed rs) = (if enters_loop e ed name then cleared rs (loop_view name rs) else loop_view name rs)"
  using enter_fold [of ed name e "wfLoops (eWorkflow e)" rs]
  by (auto simp: enter_loops_def enters_loop_def reenters_def)

text \<open>A loop's name has no slash, so it is not the key of a foreach index.\<close>

definition loop_name :: "string \<Rightarrow> bool" where
  "loop_name name \<longleftrightarrow> name \<noteq> [] \<and> (\<forall>f. name \<noteq> foreachCounterKey f)"

lemma loop_name_slash: "name \<noteq> [] \<Longrightarrow> CHR ''/'' \<notin> set name \<Longrightarrow> loop_name name"
  by (auto simp: loop_name_def foreachCounterKey_def)

lemma foreachCounterKey_eq [simp]: "foreachCounterKey f = foreachCounterKey g \<longleftrightarrow> f = g"
  by (simp add: foreachCounterKey_def)

lemma setIncoming_view [simp]: "loop_view name (setIncoming ed rs) = loop_view name rs"
  by (simp add: setIncoming_def loop_view_def Let_def)

lemma advance_view: "loop_name name \<Longrightarrow> loop_view name (advance_foreach ed rs) = loop_view name rs"
  by (auto simp: advance_foreach_def bump_def loop_view_def loop_name_def)

lemma rotate_view:
  "loop_view name (rotate_outputs n out rs) =
    (if n = name \<and> rsPrevious rs \<noteq> None then
       (rsCounters rs name, map_option (\<lambda>prv. case rsCurrent rs name of Some staged \<Rightarrow> Some staged | None \<Rightarrow> prv name) (rsPrevious rs),
        Some out)
     else loop_view name rs)"
  by (auto simp: rotate_outputs_def loop_view_def split: option.splits)

lemma cross_view:
  "loop_view name (cross_loop e ed out rs) =
    (if eLoopName ed = name \<and> name \<noteq> [] then
       (case loop_view name rs of (n, prv, cur) \<Rightarrow>
          (n + 1, map_option (\<lambda>p. case cur of Some staged \<Rightarrow> Some staged | None \<Rightarrow> p) prv,
           if prv = None then cur else Some out))
     else loop_view name rs)"
proof (cases "eLoopName ed = name \<and> name \<noteq> []")
  case True
  then show ?thesis
    by (cases "rsPrevious rs")
      (auto simp: cross_loop_def rotate_view, auto simp: loop_view_def bump_def split: option.split)
next
  case False
  then show ?thesis
    by (auto simp: cross_loop_def rotate_view, auto simp: loop_view_def bump_def)
qed

lemma commit_view:
  assumes "loop_name name"
  shows "loop_view name (commit e ed out rs) =
    (if eLoopName ed = name then
       (case loop_view name rs of (n, prv, cur) \<Rightarrow>
          (n + 1, map_option (\<lambda>p. case cur of Some staged \<Rightarrow> Some staged | None \<Rightarrow> p) prv,
           if prv = None then cur else Some out))
     else if enters_loop e ed name then cleared rs (loop_view name rs)
     else loop_view name rs)"
proof -
  have "name \<noteq> []" using assms by (simp add: loop_name_def)
  then have "enters_loop e ed name \<Longrightarrow> eLoopName ed \<noteq> name" by (auto simp: enters_loop_def reenters_def)
  with \<open>name \<noteq> []\<close> show ?thesis
    by (auto simp: commit_def cross_view advance_view [OF assms] enter_loops_view)
qed

lemma commit_counter:
  assumes "loop_name name"
  shows "rsCounters (commit e ed out rs) name =
    (if eLoopName ed = name then rsCounters rs name + 1
     else if enters_loop e ed name then min 0 (rsCounters rs name) else rsCounters rs name)"
proof -
  have "fst (loop_view name (commit e ed out rs)) = (if eLoopName ed = name then fst (loop_view name rs) + 1
     else if enters_loop e ed name then min 0 (fst (loop_view name rs)) else fst (loop_view name rs))"
    unfolding commit_view [OF assms] by (simp add: cleared_def split: prod.split)
  then show ?thesis by (simp add: loop_view_def)
qed

section \<open>A foreach index only ever advances\<close>

lemma enter_fold_keeps:
  "k \<notin> fst ` set nls \<Longrightarrow> rsCounters (fold (enter_loop e ed) nls rs) k = rsCounters rs k"
proof (induction nls arbitrary: rs)
  case (Cons nl nls)
  then have "rsCounters (enter_loop e ed nl rs) k = rsCounters rs k"
    using enter_loop_other [of nl k e ed rs] by (auto simp: loop_view_def)
  with Cons show ?case by simp
qed simp

lemma commit_index:
  assumes "foreachCounterKey f \<notin> fst ` set (wfLoops (eWorkflow e))" "eLoopName ed \<noteq> foreachCounterKey f"
  shows "rsCounters (commit e ed out rs) (foreachCounterKey f) =
    (if eForeachName ed = f \<and> f \<noteq> [] then rsCounters rs (foreachCounterKey f) + 1 else rsCounters rs (foreachCounterKey f))"
proof -
  let ?k = "foreachCounterKey f"
  have "rsCounters (enter_loops e ed rs) ?k = rsCounters rs ?k"
    using enter_fold_keeps [OF assms(1)] by (simp add: enter_loops_def)
  moreover have "rsCounters (cross_loop e ed out rs1) ?k = rsCounters rs1 ?k" for rs1
    using cross_view [of ?k e ed out rs1] assms(2) by (simp add: loop_view_def)
  moreover have "rsCounters (setIncoming ed rs1) = rsCounters rs1" for rs1
    by (simp add: setIncoming_def Let_def)
  ultimately show ?thesis
    by (auto simp: commit_def advance_foreach_def bump_def)
qed

section \<open>Runs\<close>

text \<open>
  Between two selections nodes execute and an operator steers: routing's counters and snapshots stay, an
  iteration grant only grows.
\<close>

definition executes :: "run_state \<Rightarrow> run_state \<Rightarrow> bool" where
  "executes rs rs' \<longleftrightarrow>
     rsCounters rs' = rsCounters rs \<and> rsPrevious rs' = rsPrevious rs \<and> rsCurrent rs' = rsCurrent rs \<and>
     rsBranchLocal rs' = rsBranchLocal rs \<and> (\<forall>name. rsOverrides rs name \<le> rsOverrides rs' name)"

text \<open>A step: execution, or the commit of a selected edge, labelled with the output it was selected on.\<close>

inductive run_step :: "engine \<Rightarrow> string \<times> run_state \<Rightarrow> (out_map \<times> edge) option \<Rightarrow> string \<times> run_state \<Rightarrow> bool"
  for e :: engine where
  work: "executes rs rs' \<Longrightarrow> run_step e (n, rs) None (n, rs')"
| cross: "evaluateEdges e n out rs = (Inr (Some ed), rs1, ws) \<Longrightarrow>
    run_step e (n, rs) (Some (out, ed)) (eTo ed, commit e ed out rs1)"

inductive_cases workE [elim!]: "run_step e c None c'"
inductive_cases crossE [elim!]: "run_step e c (Some (out, ed)) c'"

text \<open>The trace lists the committed edges.\<close>

inductive run_trace :: "engine \<Rightarrow> string \<times> run_state \<Rightarrow> (out_map \<times> edge) list \<Rightarrow> string \<times> run_state \<Rightarrow> bool"
  for e :: engine where
  start: "run_trace e c [] c"
| more: "run_trace e c tr c1 \<Longrightarrow> run_step e c1 lbl c2 \<Longrightarrow> run_trace e c (tr @ (case lbl of None \<Rightarrow> [] | Some x \<Rightarrow> [x])) c2"

text \<open>The outputs a loop was crossed with since it was last entered at its top.\<close>

definition loop_history :: "engine \<Rightarrow> string \<Rightarrow> (out_map \<times> edge) list \<Rightarrow> out_map list" where
  "loop_history e name tr =
     fold (\<lambda>(out, ed) h. if eLoopName ed = name then h @ [out] else if enters_loop e ed name then [] else h) tr []"

definition crossings :: "string \<Rightarrow> (out_map \<times> edge) list \<Rightarrow> nat" where
  "crossings name tr = length (filter (\<lambda>(out, ed). eLoopName ed = name) tr)"

definition entries :: "engine \<Rightarrow> string \<Rightarrow> (out_map \<times> edge) list \<Rightarrow> nat" where
  "entries e name tr = length (filter (\<lambda>(out, ed). enters_loop e ed name) tr)"

lemma history_snoc [simp]:
  "loop_history e name [] = []"
  "loop_history e name (tr @ [(out, ed)]) =
    (if eLoopName ed = name then loop_history e name tr @ [out]
     else if enters_loop e ed name then [] else loop_history e name tr)"
  by (simp_all add: loop_history_def)

lemma counts_snoc [simp]:
  "crossings name [] = 0" "entries e name [] = 0"
  "crossings name (tr @ [(out, ed)]) = crossings name tr + (if eLoopName ed = name then 1 else 0)"
  "entries e name (tr @ [(out, ed)]) = entries e name tr + (if enters_loop e ed name then 1 else 0)"
  by (simp_all add: crossings_def entries_def)

definition last_opt :: "'a list \<Rightarrow> 'a option" where
  "last_opt xs = (if xs = [] then None else Some (last xs))"

text \<open>The counter counts the history; the staged snapshot is its last output, the previous one the output before.\<close>

definition history_view :: "out_map list \<Rightarrow> int \<times> out_map option option \<times> out_map option" where
  "history_view h = (int (length h), Some (last_opt (butlast h)), last_opt h)"

lemma forget_view: "forget rs = forget rs' \<Longrightarrow> loop_view name rs = loop_view name rs'"
  by (metis forget_fields(1,8,9) loop_view_def)

lemma history_cross:
  "(case history_view h of (n, prv, cur) \<Rightarrow>
      (n + 1, map_option (\<lambda>p. case cur of Some staged \<Rightarrow> Some staged | None \<Rightarrow> p) prv, if prv = None then cur else Some out))
    = history_view (h @ [out])"
  by (cases h rule: rev_cases) (simp_all add: history_view_def last_opt_def butlast_append)

lemma history_step:
  assumes "run_step e c lbl c'" "loop_name name" "loop_view name (snd c) = history_view (loop_history e name tr)"
  shows "loop_view name (snd c') = history_view (loop_history e name (tr @ (case lbl of None \<Rightarrow> [] | Some x \<Rightarrow> [x])))"
  using assms(1)
proof cases
  case (work rs rs' n)
  with assms(3) show ?thesis by (simp add: executes_def loop_view_def)
next
  case (cross n out rs ed rs1 ws)
  have rs1: "loop_view name rs1 = history_view (loop_history e name tr)"
    using forget_view [OF evaluateEdges_ok(2) [OF cross(4)]] cross(1) assms(3) by simp
  have "rsPrevious rs1 \<noteq> None" using rs1 by (auto simp: loop_view_def history_view_def)
  then have "cleared rs1 (history_view h) = history_view []" for h
    by (auto simp: cleared_def history_view_def last_opt_def)
  then show ?thesis
    using history_cross [of out "loop_history e name tr"] cross by (simp add: commit_view [OF assms(2)] rs1)
qed

lemma history_invariant:
  assumes "run_trace e c tr c'" "loop_name name" "loop_view name (snd c) = history_view []"
  shows "loop_view name (snd c') = history_view (loop_history e name tr)"
  using assms(1, 3)
proof (induction rule: run_trace.induct)
  case (more c tr c1 lbl c2)
  show ?case by (rule history_step [OF more.hyps(2) assms(2) more.IH [OF more.prems]])
qed simp

section \<open>Counters below a bound\<close>

text \<open>
  The contract of a counter that a labelled system bumps below a bound and may reset: what a step
  of either kind does to it. The bound may be raised on the way.
\<close>

locale counted_system =
  fixes count :: "'s \<Rightarrow> int" and bound :: "'s \<Rightarrow> int"
    and step :: "'s \<Rightarrow> 'l \<Rightarrow> 's \<Rightarrow> bool" and bumps :: "'l \<Rightarrow> bool" and resets :: "'l \<Rightarrow> bool"
  assumes bound_grows: "step s lbl s' \<Longrightarrow> bound s \<le> bound s'"
    and bumped: "step s lbl s' \<Longrightarrow> bumps lbl \<Longrightarrow> count s' = count s + 1 \<and> count s < bound s"
    and was_reset: "step s lbl s' \<Longrightarrow> \<not> bumps lbl \<Longrightarrow> resets lbl \<Longrightarrow> 0 \<le> count s \<Longrightarrow> count s' = 0"
    and kept: "step s lbl s' \<Longrightarrow> \<not> bumps lbl \<Longrightarrow> \<not> resets lbl \<Longrightarrow> count s' = count s"
begin

inductive steps :: "'s \<Rightarrow> 'l list \<Rightarrow> 's \<Rightarrow> bool" where
  none: "steps s [] s"
| snoc: "steps s ls s1 \<Longrightarrow> step s1 lbl s2 \<Longrightarrow> steps s (ls @ [lbl]) s2"

definition bumped_in :: "'l list \<Rightarrow> nat" where
  "bumped_in ls = length (filter bumps ls)"

definition reset_in :: "'l list \<Rightarrow> nat" where
  "reset_in ls = length (filter (\<lambda>lbl. \<not> bumps lbl \<and> resets lbl) ls)"

text \<open>The bumps since a reset are the counter, those before it are paid for by the resets.\<close>

lemma steps_accounted:
  assumes "steps s ls s'" "count s = 0" "0 \<le> bound s"
  shows "0 \<le> count s' \<and> count s' \<le> bound s' \<and> int (bumped_in ls) \<le> bound s' * int (reset_in ls) + count s'"
  using assms
proof (induction rule: steps.induct)
  case (none s)
  then show ?case by (simp add: bumped_in_def reset_in_def)
next
  case (snoc s ls s1 lbl s2)
  then have ih: "0 \<le> count s1" "count s1 \<le> bound s1" "int (bumped_in ls) \<le> bound s1 * int (reset_in ls) + count s1"
    by simp_all
  note grows = bound_grows [OF snoc(2)]
  have paid: "int (bumped_in ls) \<le> bound s2 * int (reset_in ls) + count s1"
    using ih(3) mult_right_mono [OF grows, of "int (reset_in ls)"] by linarith
  consider "bumps lbl" | "\<not> bumps lbl" "resets lbl" | "\<not> bumps lbl" "\<not> resets lbl" by blast
  then show ?case
  proof cases
    case 1
    with bumped [OF snoc(2)] paid ih grows show ?thesis by (simp add: bumped_in_def reset_in_def)
  next
    case 2
    with was_reset [OF snoc(2)] paid ih grows show ?thesis by (simp add: bumped_in_def reset_in_def algebra_simps)
  next
    case 3
    with kept [OF snoc(2)] paid ih grows show ?thesis by (simp add: bumped_in_def reset_in_def)
  qed
qed

lemma bumps_bounded:
  assumes "steps s ls s'" "count s = 0" "0 \<le> bound s"
  shows "int (bumped_in ls) \<le> bound s' * (int (reset_in ls) + 1)"
  using steps_accounted [OF assms] by (simp add: algebra_simps)

end

section \<open>The loop counters and the foreach indices\<close>

text \<open>A cap that does not depend on the run: a literal one, or an unbounded loop's fuel.\<close>

definition fixed_cap :: "engine \<Rightarrow> loop \<Rightarrow> int option" where
  "fixed_cap e l =
     (if lUnbounded l then
        Some (if 0 < lFuelCap l then lFuelCap l
              else (case wfBudget (eWorkflow e) of
                      Some b \<Rightarrow> if 0 < bMaxIterations b then bMaxIterations b else defaultUnboundedFuel
                    | None \<Rightarrow> defaultUnboundedFuel))
      else if lMaxIterationsAST l = None \<and> lMaxIterationsExpr l = [] then Some (lMaxIterations l)
      else None)"

lemma loop_cap_fixed:
  assumes "fixed_cap e l = Some cap" "loop_cap e rs l = Inr n"
  shows "n = cap + max 0 (rsOverrides rs (lName l))"
  using assms
  by (auto simp: fixed_cap_def loop_cap_def resolveLoopMaxChecked_def resolveLoopMaxBase_def loopCapInteger_def
      json_number_def Let_def split: if_splits option.splits)

text \<open>The loop declared under a name, with such a cap.\<close>

definition capped_loop :: "engine \<Rightarrow> string \<Rightarrow> int \<Rightarrow> bool" where
  "capped_loop e name cap \<longleftrightarrow>
     loop_name name \<and>
     (case loop_of e name of None \<Rightarrow> False | Some l \<Rightarrow> lName l = name \<and> fixed_cap e l = Some cap)"

definition granted :: "string \<Rightarrow> run_state \<Rightarrow> int" where
  "granted name rs = max 0 (rsOverrides rs name)"

lemma first_choice_member: "first_choice e rs out eds x \<Longrightarrow> x \<in> set eds \<and> admissible e rs out x"
  by (auto simp: first_choice_def)

lemma crossed_below_cap:
  assumes "capped_loop e name cap" "first_choice e rs out eds ed" "eLoopName ed = name"
  shows "rsCounters rs name < cap + granted name rs"
proof -
  obtain l where l: "loop_of e name = Some l" "lName l = name" "fixed_cap e l = Some cap" "name \<noteq> []"
    using assms(1) by (auto simp: capped_loop_def loop_name_def split: option.splits)
  have "loop_open e rs name l"
    using first_choice_member [OF assms(2)] l assms(3) by (auto simp: admissible_def edge_loop_def)
  then obtain n where "loop_cap e rs l = Inr n" "rsCounters rs name < n"
    by (auto simp: loop_open_def at_cap_def split: sum.splits)
  with loop_cap_fixed [OF l(3)] l(2) show ?thesis by (auto simp: granted_def)
qed

lemma commit_overrides [simp]: "rsOverrides (commit e ed out rs) = rsOverrides rs"
proof -
  have "rsOverrides (fold (enter_loop e ed) nls rs) = rsOverrides rs" for nls
  proof (induction nls arbitrary: rs)
    case (Cons nl nls)
    have "rsOverrides (enter_loop e ed nl rs) = rsOverrides rs"
      by (auto simp: enter_loop_def reset_loop_def Let_def split: prod.split option.split)
    with Cons show ?case by simp
  qed simp
  then show ?thesis
    by (auto simp: commit_def setIncoming_def cross_loop_def rotate_outputs_def advance_foreach_def bump_def
        enter_loops_def Let_def split: option.split)
qed

lemma same_overrides: "forget rs = forget rs' \<Longrightarrow> rsOverrides rs = rsOverrides rs'"
  by (metis forget_fields(2))

definition label_edge :: "(edge \<Rightarrow> bool) \<Rightarrow> (out_map \<times> edge) option \<Rightarrow> bool" where
  "label_edge P lbl \<longleftrightarrow> (case lbl of None \<Rightarrow> False | Some (out, ed) \<Rightarrow> P ed)"

interpretation loop_counter: counted_system
  "\<lambda>c. rsCounters (snd c) name" "\<lambda>c. cap + granted name (snd c)"
  "\<lambda>c lbl c'. capped_loop e name cap \<and> run_step e c lbl c'"
  "label_edge (\<lambda>ed. eLoopName ed = name)" "label_edge (\<lambda>ed. enters_loop e ed name)"
  for e :: engine and name :: string and cap :: int
proof (unfold_locales, goal_cases)
  case (1 s lbl s')
  then have "run_step e s lbl s'" by simp
  then show ?case
    by cases (auto simp: executes_def granted_def dest: same_overrides [OF evaluateEdges_ok(2)] intro: max.coboundedI2)
next
  case (2 s lbl s')
  then have "run_step e s lbl s'" and cap: "capped_loop e name cap" by simp_all
  then show ?case
  proof cases
    case (cross n out rs ed rs1 ws)
    with 2 have name: "eLoopName ed = name" by (simp add: label_edge_def)
    have "first_choice e rs out (outgoing e n) ed" using evaluateEdges_ok(1) [OF cross(4)] by simp
    from crossed_below_cap [OF cap this name] have "rsCounters rs name < cap + granted name rs" .
    moreover have "rsCounters (commit e ed out rs1) name = rsCounters rs name + 1"
      using cap name same_run(1) [OF evaluateEdges_ok(2) [OF cross(4)]]
      by (simp add: commit_counter capped_loop_def)
    ultimately show ?thesis using cross by simp
  qed (use 2 in \<open>simp add: label_edge_def\<close>)
next
  case (3 s lbl s')
  then have "run_step e s lbl s'" and cap: "capped_loop e name cap" by simp_all
  then show ?case
  proof cases
    case (cross n out rs ed rs1 ws)
    have "rsCounters (commit e ed out rs1) name = 0"
      using cap 3 cross same_run(1) [OF evaluateEdges_ok(2) [OF cross(4)]]
      by (simp add: commit_counter capped_loop_def label_edge_def)
    then show ?thesis using cross by simp
  qed (use 3 in \<open>simp add: label_edge_def\<close>)
next
  case (4 s lbl s')
  then have "run_step e s lbl s'" and cap: "capped_loop e name cap" by simp_all
  then show ?case
  proof cases
    case (cross n out rs ed rs1 ws)
    have "rsCounters (commit e ed out rs1) name = rsCounters rs name"
      using cap 4 cross same_run(1) [OF evaluateEdges_ok(2) [OF cross(4)]]
      by (simp add: commit_counter capped_loop_def label_edge_def)
    then show ?thesis using cross by simp
  qed (simp add: executes_def)
qed

lemma label_edge_simps [simp]: "\<not> label_edge P None" "label_edge P (Some (out, ed)) = P ed"
  by (simp_all add: label_edge_def)

lemma enters_loop_bare: "enters_loop e ed name \<Longrightarrow> eLoopName ed = []"
  by (auto simp: enters_loop_def reenters_def)

lemma run_trace_steps:
  assumes "run_trace e c tr c'" "capped_loop e name cap"
  shows "\<exists>ls. loop_counter.steps e name cap c ls c' \<and> loop_counter.bumped_in name ls = crossings name tr \<and>
    loop_counter.reset_in name e ls = entries e name tr"
  using assms(1)
proof (induction rule: run_trace.induct)
  case (start c)
  show ?case
    by (intro exI [of _ "[]"] conjI loop_counter.steps.none)
      (simp_all add: loop_counter.bumped_in_def loop_counter.reset_in_def)
next
  case (more c tr c1 lbl c2)
  then obtain ls where ls: "loop_counter.steps e name cap c ls c1" "loop_counter.bumped_in name ls = crossings name tr"
    "loop_counter.reset_in name e ls = entries e name tr" by blast
  have "loop_counter.steps e name cap c (ls @ [lbl]) c2"
    using loop_counter.steps.snoc [OF ls(1)] assms(2) more.hyps(2) by blast
  moreover have "name \<noteq> []" using assms(2) by (simp add: capped_loop_def loop_name_def)
  moreover have "loop_counter.bumped_in name (ls @ [lbl]) =
      loop_counter.bumped_in name ls + (if label_edge (\<lambda>ed. eLoopName ed = name) lbl then 1 else 0)"
    by (simp add: loop_counter.bumped_in_def)
  moreover have "loop_counter.reset_in name e (ls @ [lbl]) = loop_counter.reset_in name e ls +
      (if \<not> label_edge (\<lambda>ed. eLoopName ed = name) lbl \<and> label_edge (\<lambda>ed. enters_loop e ed name) lbl then 1 else 0)"
    by (simp add: loop_counter.reset_in_def)
  ultimately show ?case
    using ls(2, 3) enters_loop_bare [of e _ name]
    by (intro exI [of _ "ls @ [lbl]"]) (cases lbl; fastforce)
qed

section \<open>A foreach over a whole run\<close>

text \<open>The names of the loops are not foreach keys, in the declarations and on the edges.\<close>

definition keys_apart :: "engine \<Rightarrow> string \<Rightarrow> bool" where
  "keys_apart e f \<longleftrightarrow>
     f \<noteq> [] \<and> foreachCounterKey f \<notin> fst ` set (wfLoops (eWorkflow e)) \<and>
     (\<forall>ed \<in> set (wfEdges (eWorkflow e)). eLoopName ed \<noteq> foreachCounterKey f)"

definition advances :: "string \<Rightarrow> (out_map \<times> edge) list \<Rightarrow> nat" where
  "advances f tr = length (filter (\<lambda>(out, ed). eForeachName ed = f) tr)"

lemma foreach_index_counts:
  assumes "run_trace e c tr c'" "keys_apart e f"
  shows "rsCounters (snd c') (foreachCounterKey f) = rsCounters (snd c) (foreachCounterKey f) + int (advances f tr)"
  using assms(1)
proof (induction rule: run_trace.induct)
  case (more c tr c1 lbl c2)
  from more.hyps(2) show ?case
  proof cases
    case (work rs rs' n)
    with more.IH show ?thesis by (simp add: executes_def)
  next
    case (cross n out rs ed rs1 ws)
    have "ed \<in> set (wfEdges (eWorkflow e))"
      using first_choice_member [of e rs out "outgoing e n" ed] evaluateEdges_ok(1) [OF cross(4)] by (simp add: outgoing_def)
    then have "rsCounters (commit e ed out rs1) (foreachCounterKey f) =
        rsCounters rs (foreachCounterKey f) + (if eForeachName ed = f then 1 else 0)"
      using assms(2) same_run(1) [OF evaluateEdges_ok(2) [OF cross(4)]] by (auto simp: commit_index keys_apart_def)
    with cross more.IH show ?thesis by (simp add: advances_def)
  qed
qed (simp add: advances_def)

end
