(* ===== verification/EdgeFacts.thy ===== *)
theory EdgeFacts
  imports EdgeRun
begin

text \<open>
  The parts routing rests on: the liveness monitor over a sequence of outputs, the resolution of
  collections, the depth at which caps are read, and the price of an iteration.
\<close>

section \<open>An unset layer of a switch\<close>

lemma strip_left_Nil [simp]: "strip_left ps [] = []"
proof -
  have "strip_first ps [] = None" by (induction ps) (auto simp: strip_prefix_def)
  then show ?thesis by (simp add: strip_left.simps)
qed

lemma parse_unset [simp]: "parseOnOff [] = None"
  by (simp add: parseOnOff_def trim_space_def to_lower_def)

section \<open>Liveness\<close>

text \<open>The monitor after the loop was evaluated on each output in turn.\<close>

definition watch :: "engine \<Rightarrow> string \<Rightarrow> out_map list \<Rightarrow> run_state \<Rightarrow> run_state" where
  "watch e name outs rs = fold (\<lambda>out s. snd (loopStalled e name out s)) outs rs"

text \<open>How many outputs at the end have the signature of \<open>out\<close>.\<close>

definition repeats :: "engine \<Rightarrow> out_map \<Rightarrow> out_map list \<Rightarrow> nat" where
  "repeats e out outs = length (takeWhile (\<lambda>o1. eMarshal e o1 = eMarshal e out) (rev outs))"

lemma repeats_snoc:
  "repeats e out (outs @ [o1]) = (if eMarshal e o1 = eMarshal e out then Suc (repeats e out outs) else 0)"
  by (simp add: repeats_def)

lemma repeats_same: "eMarshal e o1 = eMarshal e o2 \<Longrightarrow> repeats e o1 outs = repeats e o2 outs"
  by (simp add: repeats_def)

lemma watch_snoc [simp]:
  "watch e name [] rs = rs" "watch e name (outs @ [out]) rs = snd (loopStalled e name out (watch e name outs rs))"
  by (simp_all add: watch_def)

text \<open>With the signature of the last output goes the number of its repeats.\<close>

lemma watch_counts:
  assumes "rsProgressSig rs name = None"
  shows "(if rsProgressSig (watch e name outs rs) name = Some (eMarshal e out)
          then rsStaleness (watch e name outs rs) name + 1 else 0) = int (repeats e out outs)"
proof (induction outs arbitrary: out rule: rev_induct)
  case Nil
  show ?case using assms by (simp add: repeats_def)
next
  case (snoc o1 outs)
  have "rsProgressSig (watch e name (outs @ [o1]) rs) name = Some (eMarshal e o1)"
    "rsStaleness (watch e name (outs @ [o1]) rs) name = int (repeats e o1 outs)"
    using snoc.IH [of o1] by (auto simp: loopStalled_def Let_def split: if_splits)
  then show ?case using repeats_same [of e o1 out outs] by (auto simp: repeats_snoc)
qed

lemma stalled_iff:
  assumes "rsProgressSig rs name = None"
  shows "fst (loopStalled e name out (watch e name outs rs)) \<longleftrightarrow> 3 \<le> repeats e out outs"
  using watch_counts [OF assms, of e outs out] by (auto simp: loopStalled_def maxLoopStall_def Let_def split: if_splits)

text \<open>\<open>stampNodeDuration\<close>: the engine's timing of a node on its output, in milliseconds, unless a backend put one.\<close>

definition stampNodeDuration :: "int \<Rightarrow> out_map \<Rightarrow> out_map" where
  "stampNodeDuration ms out =
     (if map_of out ''_duration_ms'' \<noteq> None then out else gmap_put ''_duration_ms'' (VInt KInt64 ms) out)"

section \<open>Collections\<close>

text \<open>The foreach whose element a collection is read from.\<close>

definition opens :: "engine \<Rightarrow> foreach \<Rightarrow> foreach option" where
  "opens e fe =
     (case feCollectionRefs fe of
        (RefEach, path) # _ \<Rightarrow>
          (case each_split e path of
             Some (name, rest) \<Rightarrow> map_of (wfForeaches (eWorkflow e)) name
           | None \<Rightarrow> None)
      | _ \<Rightarrow> None)"

lemma collection_step:
  "resolveForeachCollection e m rs (Suc depth) fe \<noteq> None \<longleftrightarrow>
     (case opens e fe of None \<Rightarrow> True | Some g \<Rightarrow> resolveForeachCollection e m rs depth g \<noteq> None)"
  by (auto simp: opens_def resolveRef_def split: list.split option.split ref_kind.split prod.split)

definition opens_rel :: "engine \<Rightarrow> (foreach \<times> foreach) set" where
  "opens_rel e = {(f, g). opens e f = Some g}"

text \<open>The collection is read, through others or not, from one that is read from its own element.\<close>

definition ungrounded :: "engine \<Rightarrow> foreach \<Rightarrow> bool" where
  "ungrounded e f \<longleftrightarrow> (\<exists>g. (f, g) \<in> (opens_rel e)\<^sup>* \<and> (g, g) \<in> (opens_rel e)\<^sup>+)"

lemma ungrounded_next:
  assumes "ungrounded e f"
  obtains g where "opens e f = Some g" "ungrounded e g"
proof -
  from assms obtain c where c: "(f, c) \<in> (opens_rel e)\<^sup>*" "(c, c) \<in> (opens_rel e)\<^sup>+" by (auto simp: ungrounded_def)
  then have "(f, c) \<in> (opens_rel e)\<^sup>+" by (metis rtrancl_trancl_trancl)
  then obtain g where "(f, g) \<in> opens_rel e" "(g, c) \<in> (opens_rel e)\<^sup>*" by (metis tranclD)
  with c(2) that show ?thesis by (auto simp: ungrounded_def opens_rel_def)
qed

lemma ungrounded_diverges: "ungrounded e fe \<Longrightarrow> resolveForeachCollection e m rs depth fe = None"
proof (induction depth arbitrary: fe)
  case (Suc depth)
  from Suc.prems obtain g where "opens e fe = Some g" "ungrounded e g" by (rule ungrounded_next)
  with Suc.IH collection_step [of e m rs depth fe] show ?case by simp
qed simp

lemma unresolved_chain:
  "resolveForeachCollection e m rs depth fe = None \<Longrightarrow> \<exists>h. h 0 = fe \<and> (\<forall>i < depth. opens e (h i) = Some (h (Suc i)))"
proof (induction depth arbitrary: fe)
  case (Suc depth)
  from Suc.prems collection_step [of e m rs depth fe]
  obtain g where g: "opens e fe = Some g" "resolveForeachCollection e m rs depth g = None"
    by (auto split: option.splits)
  from Suc.IH [OF g(2)] obtain h where h: "h 0 = g" "\<forall>i < depth. opens e (h i) = Some (h (Suc i))" by blast
  with g(1) show ?case
    by (intro exI [of _ "case_nat fe h"]) (auto split: nat.split simp: less_Suc_eq_0_disj)
next
  case 0
  show ?case by (rule exI [of _ "\<lambda>_. fe"]) simp
qed

lemma opens_declared: "opens e f = Some g \<Longrightarrow> g \<in> snd ` set (wfForeaches (eWorkflow e))"
  by (force simp: opens_def dest: map_of_SomeD split: list.splits prod.splits ref_kind.splits option.splits)

lemma grounded_resolves:
  assumes "collectionOf e m rs fe = None"
  shows "ungrounded e fe"
proof -
  let ?n = "length (wfForeaches (eWorkflow e))"
  from unresolved_chain [OF assms [unfolded collectionOf_def]]
  obtain h where h: "h 0 = fe" "\<forall>i < Suc ?n. opens e (h i) = Some (h (Suc i))" by blast
  have path: "(h i, h j) \<in> (opens_rel e)\<^sup>+" if "i < j" "j \<le> Suc ?n" for i j
    using that
  proof (induction j)
    case (Suc j)
    then have "(h j, h (Suc j)) \<in> opens_rel e" using h(2) by (simp add: opens_rel_def)
    with Suc show ?case by (cases "i = j") (auto intro: trancl_into_trancl)
  qed simp
  have "h ` {1..Suc ?n} \<subseteq> snd ` set (wfForeaches (eWorkflow e))"
  proof
    fix x assume "x \<in> h ` {1..Suc ?n}"
    then obtain i where "x = h (Suc i)" "i < Suc ?n" by (auto simp: Suc_le_eq elim!: rangeE) (metis Suc_le_eq Suc_pred)
    with h(2) opens_declared show "x \<in> snd ` set (wfForeaches (eWorkflow e))" by blast
  qed
  then have "card (h ` {1..Suc ?n}) \<le> card (snd ` set (wfForeaches (eWorkflow e)))" by (intro card_mono) simp_all
  also have "\<dots> \<le> ?n" by (metis List.finite_set card_image_le card_length le_trans)
  finally have "\<not> inj_on h {1..Suc ?n}" by (auto dest: card_image)
  then obtain i j where "i < j" "j \<le> Suc ?n" "h i = h j"
    by (auto simp: inj_on_def) (metis linorder_neqE_nat)
  then have "(h i, h i) \<in> (opens_rel e)\<^sup>+" using path by metis
  moreover have "(fe, h i) \<in> (opens_rel e)\<^sup>*"
    using path [of 0 i] h(1) \<open>i < j\<close> \<open>j \<le> Suc ?n\<close> by (cases i) (auto intro: trancl_into_rtrancl)
  ultimately show ?thesis by (auto simp: ungrounded_def)
qed

section \<open>Caps read variables and outputs\<close>

definition reads_state_only :: "ref_kind \<times> string list \<Rightarrow> bool" where
  "reads_state_only r \<longleftrightarrow> fst r = RefVars \<or> fst r = RefOutputs"

text \<open>The compiler's rule on a cap: a parsed tree over \<open>vars\<close> and \<open>outputs\<close>, or one such reference.\<close>

definition cap_checked :: "loop \<Rightarrow> bool" where
  "cap_checked l \<longleftrightarrow>
     (case lMaxIterationsAST l of
        Some ast \<Rightarrow> wf_node ast \<and> fst ` set (Refs (Some ast)) \<subseteq> {''vars'', ''outputs''}
      | None \<Rightarrow> list_all reads_state_only (lMaxIterationsExprRefs l))"

lemma cap_base_depth:
  assumes "cap_checked l" "\<And>w. \<not> eCancelled e w" "resolveLoopMaxBase e m rs l = Inr n"
  shows "resolveLoopMaxBase e m' rs l = Inr n"
proof (cases "lUnbounded l \<or> lMaxIterationsAST l = None")
  case True
  have "resolveRef e m (collectionOf e m rs) rs r = resolveRef e m' (collectionOf e m' rs) rs r"
    if "reads_state_only r" for r
    using that by (cases r) (auto simp: reads_state_only_def resolveRef_def)
  with assms True show ?thesis
    by (auto simp: resolveLoopMaxBase_def cap_checked_def split: list.splits option.splits if_splits)
next
  case False
  then obtain ast where ast: "lMaxIterationsAST l = Some ast" "\<not> lUnbounded l" by auto
  with assms(1) have wf: "wf_node ast" "fst ` set (Refs (Some ast)) \<subseteq> {''vars'', ''outputs''}"
    by (simp_all add: cap_checked_def)
  from assms(3) ast obtain v where v: "eval_in e (eCancelled e) (exprContext e m rs []) ast = Inr v"
    by (auto simp: resolveLoopMaxBase_def split: sum.splits)
  have "eval_in e (eCancelled e) (exprContext e m' rs []) ast = Inr v"
    using v unfolding eval_in_def
  proof (rule eval_ast_follows [rotated -1])
    show "\<forall>(ns, path) \<in> set (Refs (Some ast)).
        resolve_ctx (eCtx \<lparr>eCtx = Some (exprContext e m rs []), eInterrupted = eCancelled e\<rparr>) ns path =
        resolve_ctx (eCtx \<lparr>eCtx = Some (exprContext e m' rs []), eInterrupted = eCancelled e\<rparr>) ns path"
      using wf(2) by (force simp: resolve_ctx_def exprContext_def)
  qed (use wf(1) assms(2) in simp_all)
  with assms(3) ast v show ?thesis by (simp add: resolveLoopMaxBase_def)
qed

lemma cap_depth:
  assumes "cap_checked l" "\<And>w. \<not> eCancelled e w"
  shows "(case resolveLoopMaxChecked e m rs l of Inl err \<Rightarrow> 0 | Inr n \<Rightarrow> n) =
    (case resolveLoopMaxChecked e m' rs l of Inl err \<Rightarrow> 0 | Inr n \<Rightarrow> n)"
proof (cases "resolveLoopMaxBase e m rs l")
  case (Inl err)
  then have "\<exists>err'. resolveLoopMaxBase e m' rs l = Inl err'"
    using cap_base_depth [OF assms, of m' rs _ m] by (cases "resolveLoopMaxBase e m' rs l") auto
  with Inl show ?thesis by (auto simp: resolveLoopMaxChecked_def)
next
  case (Inr n)
  with cap_base_depth [OF assms Inr, of m'] show ?thesis by (simp add: resolveLoopMaxChecked_def)
qed

lemma maxReader_depth:
  assumes "\<forall>(name, l) \<in> set (wfLoops (eWorkflow e)). cap_checked l" "\<And>w. \<not> eCancelled e w"
  shows "maxReader e rs (Suc d) = maxReader e rs (Suc d')"
proof
  fix name
  show "maxReader e rs (Suc d) name = maxReader e rs (Suc d') name"
  proof (cases "loop_of e name")
    case (Some l)
    then have "(name, l) \<in> set (wfLoops (eWorkflow e))" unfolding loop_of_def by (rule map_of_SomeD)
    with assms(1) have "cap_checked l" by blast
    from cap_depth [OF this assms(2), of "maxReader e rs d" rs "maxReader e rs d'"] Some show ?thesis by simp
  qed simp
qed

section \<open>The price of an iteration\<close>

text \<open>A difference of nothing: a zero, or no number.\<close>

fun no_amount :: "f64 \<Rightarrow> bool" where
  "no_amount FNaN = True"
| "no_amount (FFin s q) = (q = 0)"
| "no_amount (FInf s) = False"

lemma no_amount_sub: "no_amount (f_sub x x)"
  by (cases x) (simp_all add: f_sub_def fround_def)

lemma no_amount_mul: "no_amount x \<Longrightarrow> no_amount (f_mul x y)"
  by (cases x; cases y) (simp_all add: fround_def)

lemma no_amount_free: "no_amount x \<Longrightarrow> f_le x f_zero \<or> \<not> f_le a (f_add b x)"
  by (cases x; cases a; cases b) (auto simp: f_le_def f_zero_def)

lemma axis_unmoved:
  assumes "mark_read mark ax = used"
  shows "axis_shortfall mark sizes (ax, used, left) = None"
proof -
  define spent where "spent = (case sizes of Some (from, now) \<Rightarrow> f_mul (f_sub used used) (f_div now from) | None \<Rightarrow> f_sub used used)"
  have "no_amount spent"
    by (auto simp: spent_def no_amount_sub no_amount_mul split: option.split)
  then have "f_le spent f_zero \<or> \<not> f_le (f_mul budgetHardThreshold (f_add used left)) (f_add used spent)"
    by (rule no_amount_free)
  then show ?thesis
    unfolding axis_shortfall_def Let_def spent_def by (auto simp: assms cong: under_case)
qed

lemma unmoved_free:
  "(\<And>ax used left. (ax, used, left) \<in> set axes \<Longrightarrow> mark_read mark ax = used) \<Longrightarrow> first_shortfall mark sizes axes = None"
proof (induction axes)
  case (Cons a axes)
  obtain ax used left where a: "a = (ax, used, left)" by (cases a)
  with Cons.prems have "axis_shortfall mark sizes a = None" by (auto intro: axis_unmoved)
  moreover have "first_shortfall mark sizes axes = None"
    by (rule Cons.IH) (use Cons.prems in auto)
  ultimately show ?case by simp
qed simp

lemma distinct_map_filter:
  assumes "\<And>x y. f x = Some y \<Longrightarrow> fst y = fst x" "distinct (map fst xs)"
  shows "distinct (map fst (List.map_filter f xs)) \<and> fst ` set (List.map_filter f xs) \<subseteq> fst ` set xs"
  using assms(2)
proof (induction xs)
  case (Cons x xs)
  then show ?case
  proof (cases "f x")
    case (Some y)
    with assms(1) [OF Some] Cons show ?thesis by (auto simp: List.map_filter_simps)
  qed (auto simp: List.map_filter_simps)
qed (simp add: List.map_filter_simps)

lemma axes_distinct: "distinct (map fst (Axes now ob))"
proof (cases ob)
  case (Some b)
  have "fst y = fst x" if "axis_standing x = Some y" for x y
    using that by (auto simp: axis_standing_def Let_def split: prod.splits if_splits)
  moreover have "distinct (map fst (axis_list now b))" by (simp add: axis_list_def)
  ultimately show ?thesis using distinct_map_filter [of axis_standing] Some by (simp add: Axes_def)
qed (simp add: Axes_def)

lemma mark_read_axes:
  assumes "(ax, used, left) \<in> set axes" "distinct (map fst axes)"
  shows "mark_read (map (\<lambda>(ax, used, left). (ax, used)) axes) ax = used"
proof -
  have "map_of (map (\<lambda>(ax, used, left). (ax, used)) axes) ax = Some used"
    using assms by (intro map_of_is_SomeI) (auto simp: comp_def case_prod_unfold rev_image_eqI)
  then show ?thesis by (simp add: mark_read_def)
qed

lemma markLoopBudget_budget [simp]:
  "rsBudget (markLoopBudget e name rs) = rsBudget rs" "rsNow (markLoopBudget e name rs) = rsNow rs"
  by (simp_all add: markLoopBudget_def Let_def split: option.split)

lemma markLoopBudget_mark:
  "Axes (rsNow rs) (rsBudget rs) \<noteq> [] \<Longrightarrow>
    rsMarks (markLoopBudget e name rs) name = Some (map (\<lambda>(ax, used, left). (ax, used)) (Axes (rsNow rs) (rsBudget rs)))"
  by (simp add: markLoopBudget_def Let_def split: option.split)

lemma fresh_mark_free:
  assumes "rsMarks rs' name = rsMarks (markLoopBudget e name rs) name"
    "rsBudget rs' = rsBudget rs" "rsNow rs' = rsNow rs"
  shows "loopBudgetShortfall e rs' name = None"
proof (cases "Axes (rsNow rs) (rsBudget rs) = []")
  case True
  with assms show ?thesis by (simp add: loopBudgetShortfall_def split: option.split)
next
  case False
  have "first_shortfall (map (\<lambda>(ax, used, left). (ax, used)) (Axes (rsNow rs) (rsBudget rs))) sizes (Axes (rsNow rs) (rsBudget rs)) = None"
    for sizes by (rule unmoved_free) (auto intro: mark_read_axes axes_distinct)
  with assms markLoopBudget_mark [OF False, of e name] show ?thesis by (simp add: loopBudgetShortfall_def)
qed

lemma rotate_setIncoming_keep:
  "rsMarks (rotate_outputs n out rs) = rsMarks rs" "rsBudget (rotate_outputs n out rs) = rsBudget rs"
  "rsNow (rotate_outputs n out rs) = rsNow rs" "rsMarks (setIncoming ed rs) = rsMarks rs"
  "rsBudget (setIncoming ed rs) = rsBudget rs" "rsNow (setIncoming ed rs) = rsNow rs"
  by (auto simp: rotate_outputs_def setIncoming_def Let_def split: option.split)

text \<open>Where the guard declines, it prices one more iteration past the hard threshold of a marked axis.\<close>

lemma first_shortfall_cases:
  "first_shortfall mark sizes axes = Some v \<Longrightarrow> \<exists>axis \<in> set axes. axis_shortfall mark sizes axis = Some v"
  by (induction axes) (auto split: option.splits)

lemma axis_shortfall_cases:
  assumes "axis_shortfall mark sizes (ax, used, left) = Some v"
  shows "sfDimension v = ax \<and> sfUsed v = used \<and> sfRemaining v = left \<and> \<not> f_le (sfSpent v) f_zero \<and>
    f_le (f_mul budgetHardThreshold (f_add used left)) (f_add used (sfSpent v))"
  using assms unfolding axis_shortfall_def Let_def by (simp split: if_splits) auto

end
