(* ===== verification/NodeInput.thy ===== *)
theory NodeInput
  imports EdgeSelect
begin

text \<open>
  The input of a node: \<open>buildNodeInputRS\<close>, \<open>resolveMapping\<close> and the settled floor of
  \<open>pkg/runtime/engine_resolve.go\<close>, over the incoming edges that \<open>pkg/runtime/incoming.go\<close> records.
  The scope of a resolution is a run state (a fan-out passes its merged maps, a mapping its source's
  output as \<open>input\<close>) and the map of incoming edges it consults.
\<close>

section \<open>Templates\<close>

text \<open>\<open>strings.Index\<close>.\<close>

fun index_of :: "string \<Rightarrow> string \<Rightarrow> nat option" where
  "index_of sub [] = (if sub = [] then Some 0 else None)"
| "index_of sub (c # s) = (if take (length sub) (c # s) = sub then Some 0 else map_option Suc (index_of sub s))"

lemma index_of_bound: "index_of sub s = Some n \<Longrightarrow> n + length sub \<le> length s \<and> take (length sub) (drop n s) = sub"
proof (induction sub s arbitrary: n rule: index_of.induct)
  case (2 sub c s)
  show ?case
  proof (cases "take (length sub) (c # s) = sub")
    case True
    then have "length sub \<le> length (c # s)" by (metis length_take min.cobounded1)
    with 2 True show ?thesis by simp
  next
    case False
    with 2 show ?thesis by (cases "index_of sub s") auto
  qed
qed (auto split: if_splits)

text \<open>The \<open>{{...}}\<close> blocks from an offset on, end-exclusive.\<close>

function spans_from :: "nat \<Rightarrow> string \<Rightarrow> (nat \<times> nat) list" where
  "spans_from off s =
     (case index_of ''{{'' s of
        None \<Rightarrow> []
      | Some start \<Rightarrow>
          (case index_of ''}}'' (drop start s) of
             None \<Rightarrow> []
           | Some len \<Rightarrow> (off + start, off + start + len + 2) # spans_from (off + start + len + 2) (drop (start + len + 2) s)))"
  by auto
termination
  by (relation "measure (\<lambda>(off, s). length s)") (auto dest!: index_of_bound)

declare spans_from.simps [simp del]

definition templateSpans :: "string \<Rightarrow> (nat \<times> nat) list" where
  "templateSpans s = spans_from 0 s"

definition renderMappingValue :: "engine \<Rightarrow> gval \<Rightarrow> string" where
  "renderMappingValue e v = (case v of VString s \<Rightarrow> s | VNil \<Rightarrow> [] | _ \<Rightarrow> eRender e v)"

text \<open>The text with each block replaced by the value of its reference, \<open>prv\<close> being the end of the last block.\<close>

fun splice :: "string \<Rightarrow> nat \<Rightarrow> (nat \<times> nat) list \<Rightarrow> string list \<Rightarrow> string" where
  "splice raw prv ((from, til) # sps) (v # vs) = take (from - prv) (drop prv raw) @ v @ splice raw til sps vs"
| "splice raw prv sps vs = drop prv raw"

text \<open>A reference in the scope of a run state; \<open>None\<close> is a collection that does not return.\<close>

definition scoped_ref :: "engine \<Rightarrow> run_state \<Rightarrow> run_state \<Rightarrow> ir_ref \<Rightarrow> gval option" where
  "scoped_ref e rs sc r = resolveRef e (resolveLoopMax e rs) (collectionOf e (resolveLoopMax e rs) sc) sc r"

fun all_some :: "'a option list \<Rightarrow> 'a list option" where
  "all_some [] = Some []"
| "all_some (None # xs) = None"
| "all_some (Some x # xs) = map_option ((#) x) (all_some xs)"

definition resolveMapping :: "engine \<Rightarrow> run_state \<Rightarrow> run_state \<Rightarrow> data_mapping \<Rightarrow> gval option" where
  "resolveMapping e rs sc dm =
     (let spans = templateSpans (dmRaw dm) in
      if dmRefs dm = [] then Some (VString (dmRaw dm))
      else if length spans \<noteq> length (dmRefs dm) then
        (case dmRefs dm of [r] \<Rightarrow> scoped_ref e rs sc r | _ \<Rightarrow> Some (VString (dmRaw dm)))
      else if spans = [(0, length (dmRaw dm))] then scoped_ref e rs sc (hd (dmRefs dm))
      else map_option (\<lambda>vs. VString (splice (dmRaw dm) 0 spans (map (renderMappingValue e) vs)))
             (all_some (map (scoped_ref e rs sc) (dmRefs dm))))"

section \<open>Incoming edges\<close>

definition IsBoundedIteration :: "edge \<Rightarrow> bool" where
  "IsBoundedIteration ed \<longleftrightarrow> eLoopName ed \<noteq> [] \<or> eForeachName ed \<noteq> []"

definition incomingEqual :: "edge \<Rightarrow> edge \<Rightarrow> bool" where
  "incomingEqual a ed \<longleftrightarrow> a = incomingFromEdge ed"

definition recordIncoming :: "edge \<Rightarrow> bool \<Rightarrow> (string \<Rightarrow> edge list option) \<Rightarrow> (string \<Rightarrow> edge list option)" where
  "recordIncoming ed replace dst =
     (let old = (case dst (eTo ed) of None \<Rightarrow> [] | Some xs \<Rightarrow> xs) in
      if replace then dst(eTo ed := Some [incomingFromEdge ed])
      else if list_ex (\<lambda>a. incomingEqual a ed) old then dst
      else dst(eTo ed := Some (old @ [incomingFromEdge ed])))"

definition edgeInIncoming :: "edge \<Rightarrow> edge list \<Rightarrow> bool" where
  "edgeInIncoming ed selected = list_ex (\<lambda>a. incomingEqual a ed) selected"

definition incomingMatchesWorkflow :: "engine \<Rightarrow> string \<Rightarrow> edge list \<Rightarrow> bool" where
  "incomingMatchesWorkflow e nodeID selected =
     list_ex (\<lambda>ed. eTo ed = nodeID \<and> edgeInIncoming ed selected) (wfEdges (eWorkflow e))"

definition incomingOnlyBounded :: "edge list \<Rightarrow> bool" where
  "incomingOnlyBounded selected \<longleftrightarrow> selected \<noteq> [] \<and> list_all IsBoundedIteration selected"

section \<open>The settled floor\<close>

definition settledFloorFor :: "run_state \<Rightarrow> string \<Rightarrow> edge list" where
  "settledFloorFor rs nodeID = (case rsSettled rs nodeID of None \<Rightarrow> [] | Some xs \<Rightarrow> xs)"

definition settledFloorEligible :: "edge \<Rightarrow> edge list \<Rightarrow> bool" where
  "settledFloorEligible ed flr \<longleftrightarrow>
     flr \<noteq> [] \<and> eFrom ed \<noteq> [] \<and> \<not> IsBoundedIteration ed \<and> edgeInIncoming ed flr"

text \<open>
  \<open>reflect.DeepEqual\<close> on the dynamic values: floats by \<open>==\<close>, everything else by structure and type.
\<close>

fun deepEqual :: "gval \<Rightarrow> gval \<Rightarrow> bool" where
  "deepEqual (VF64 a) w = (case w of VF64 b \<Rightarrow> f_eq a b | _ \<Rightarrow> False)"
| "deepEqual (VF32 a) w = (case w of VF32 b \<Rightarrow> f_eq a b | _ \<Rightarrow> False)"
| "deepEqual (VList xs) w = (case w of VList ys \<Rightarrow> list_all2 deepEqual xs ys | _ \<Rightarrow> False)"
| "deepEqual (VTSlice ty xs) w = (case w of VTSlice ty' ys \<Rightarrow> ty = ty' \<and> list_all2 deepEqual xs ys | _ \<Rightarrow> False)"
| "deepEqual (VMap m) w =
     (case w of VMap n \<Rightarrow> list_all2 (\<lambda>(k, v) (k', v'). k = k' \<and> deepEqual v v') m n | _ \<Rightarrow> False)"
| "deepEqual (VTMap ty m) w =
     (case w of VTMap ty' n \<Rightarrow> ty = ty' \<and> list_all2 (\<lambda>(k, v) (k', v'). k = k' \<and> deepEqual v v') m n | _ \<Rightarrow> False)"
| "deepEqual VNil w = (w = VNil)"
| "deepEqual (VBool b) w = (w = VBool b)"
| "deepEqual (VInt k n) w = (w = VInt k n)"
| "deepEqual (VString s) w = (w = VString s)"
| "deepEqual (VOther ty s) w = (w = VOther ty s)"

record floor_value =
  fvKey :: string
  fvValue :: gval
  fvRaw :: string
  fvRefs :: "ir_ref list"
  fvDecided :: bool

text \<open>
  One mapping of a floor edge: the same template is the same mapping, a second one must agree. Every
  floor edge resolves with an empty \<open>input\<close>.
\<close>

definition floor_step :: "engine \<Rightarrow> run_state \<Rightarrow> run_state \<Rightarrow> data_mapping \<Rightarrow> floor_value list option \<Rightarrow> floor_value list option" where
  "floor_step e rs sc dm acc =
     (case acc of
        None \<Rightarrow> None
      | Some fvs \<Rightarrow>
          (case find (\<lambda>fv. fvKey fv = dmKey dm) fvs of
             Some fv \<Rightarrow>
               if fvRaw fv = dmRaw dm then Some fvs
               else (case resolveMapping e rs (sc\<lparr>rsRunInputs := []\<rparr>) dm of
                       None \<Rightarrow> None
                     | Some v \<Rightarrow>
                         Some (map (\<lambda>x. if fvKey x \<noteq> dmKey dm \<or> \<not> fvDecided x then x
                                        else if \<not> deepEqual (fvValue x) v then x\<lparr>fvDecided := False\<rparr>
                                        else x\<lparr>fvRefs := fvRefs x @ dmRefs dm\<rparr>) fvs))
           | None \<Rightarrow>
               (case resolveMapping e rs (sc\<lparr>rsRunInputs := []\<rparr>) dm of
                  None \<Rightarrow> None
                | Some v \<Rightarrow>
                    Some (fvs @ [\<lparr>fvKey = dmKey dm, fvValue = v, fvRaw = dmRaw dm, fvRefs = dmRefs dm, fvDecided = True\<rparr>]))))"

definition floor_edges :: "engine \<Rightarrow> run_state \<Rightarrow> string \<Rightarrow> edge list" where
  "floor_edges e rs nodeID =
     filter (\<lambda>ed. eTo ed = nodeID \<and> settledFloorEligible ed (settledFloorFor rs nodeID)) (wfEdges (eWorkflow e))"

text \<open>The contribution in key order and the artifacts the surviving mappings read.\<close>

definition settledFloorMappings :: "engine \<Rightarrow> run_state \<Rightarrow> run_state \<Rightarrow> string \<Rightarrow> ((string \<times> gval) list \<times> string list) option" where
  "settledFloorMappings e rs sc nodeID =
     map_option
       (\<lambda>fvs. (map (\<lambda>fv. (fvKey fv, fvValue fv)) (filter fvDecided fvs),
               concat (map (\<lambda>fv. List.map_filter (\<lambda>(kind, path). if kind = RefArtifacts \<and> path \<noteq> [] then Some (hd path) else None)
                                   (fvRefs fv)) (filter fvDecided fvs))))
       (fold (floor_step e rs sc) (concat (map eWith (floor_edges e rs nodeID))) (Some []))"

section \<open>The input of a node\<close>

definition put_all :: "(string \<times> gval) list \<Rightarrow> out_map \<Rightarrow> out_map" where
  "put_all kvs m = fold (\<lambda>(k, v) m. gmap_put k v m) kvs m"

definition GrantInputKey :: string where
  "GrantInputKey = ''_permission_grant''"

definition RunGrantsInputKey :: string where
  "RunGrantsInputKey = ''_permission_run_grants''"

text \<open>The launch payload over the variables' defaults, on the entry node.\<close>

definition entry_values :: "engine \<Rightarrow> run_state \<Rightarrow> string \<Rightarrow> (string \<times> gval) list" where
  "entry_values e sc nodeID =
     (if nodeID = wfEntry (eWorkflow e) then
        map (\<lambda>(name, v). (name, case map_of (rsVars sc) name of Some r \<Rightarrow> r | None \<Rightarrow> vDefault v))
          (filter (\<lambda>(name, v). vHasDefault v) (wfVars (eWorkflow e))) @ rsRunInputs sc
      else [])"

text \<open>
  The edges that contribute to this visit: those of the recorded selection, unless none is recorded or the
  record matches no current edge; a selection of back-edges only overlays the forward edges.
\<close>

definition contributes :: "engine \<Rightarrow> run_state \<Rightarrow> (string \<Rightarrow> edge list option) \<Rightarrow> string \<Rightarrow> edge \<Rightarrow> bool" where
  "contributes e sc incoming nodeID ed \<longleftrightarrow>
     eTo ed = nodeID \<and> (eFrom ed = [] \<or> map_of (rsOutputs sc) (eFrom ed) \<noteq> None) \<and>
     (case incoming nodeID of
        None \<Rightarrow> True
      | Some selected \<Rightarrow>
          \<not> incomingMatchesWorkflow e nodeID selected \<or>
          incomingOnlyBounded selected \<and> \<not> IsBoundedIteration ed \<or>
          edgeInIncoming ed selected)"

definition edge_values :: "engine \<Rightarrow> run_state \<Rightarrow> run_state \<Rightarrow> edge \<Rightarrow> (string \<times> gval) list option" where
  "edge_values e rs sc ed =
     (let sourceOut = (case map_of (rsOutputs sc) (eFrom ed) of Some out \<Rightarrow> out | None \<Rightarrow> []) in
      all_some (map (\<lambda>dm. map_option (\<lambda>v. (dmKey dm, v)) (resolveMapping e rs (sc\<lparr>rsRunInputs := sourceOut\<rparr>) dm)) (eWith ed)))"

text \<open>The forward edges first, the back-edges last.\<close>

definition contributing :: "engine \<Rightarrow> run_state \<Rightarrow> (string \<Rightarrow> edge list option) \<Rightarrow> string \<Rightarrow> edge list" where
  "contributing e sc incoming nodeID =
     filter (contributes e sc incoming nodeID)
       (filter (\<lambda>ed. \<not> IsBoundedIteration ed) (wfEdges (eWorkflow e)) @ filter IsBoundedIteration (wfEdges (eWorkflow e)))"

definition own_grants :: "run_state \<Rightarrow> string \<Rightarrow> out_map \<Rightarrow> out_map" where
  "own_grants rs nodeID m =
     (let m1 = gmap_del RunGrantsInputKey (gmap_del GrantInputKey m); grants = rsPermissionGrants rs nodeID in
      if grants = [] then m1 else gmap_put RunGrantsInputKey (VTSlice ''[]string'' (map VString grants)) m1)"

definition buildNodeInput :: "engine \<Rightarrow> run_state \<Rightarrow> run_state \<Rightarrow> (string \<Rightarrow> edge list option) \<Rightarrow> string \<Rightarrow> out_map option" where
  "buildNodeInput e rs sc incoming nodeID =
     (case settledFloorMappings e rs sc nodeID of
        None \<Rightarrow> None
      | Some (settled, refs) \<Rightarrow>
          (case all_some (map (edge_values e rs sc) (contributing e sc incoming nodeID)) of
             None \<Rightarrow> None
           | Some mapped \<Rightarrow>
               Some (own_grants rs nodeID (put_all (concat mapped) (put_all settled (put_all (entry_values e sc nodeID) []))))))"

section \<open>Joining a fan-out\<close>

record branch_result =
  brID :: string
  brStart :: string
  brOutputs :: "string list"
  brFailed :: bool
  brIncoming :: "string \<Rightarrow> edge list option"

record evidence =
  evRan :: "string list"
  evChosen :: "string \<Rightarrow> edge list"

definition recorded :: "branch_result \<Rightarrow> string \<Rightarrow> edge list" where
  "recorded r nodeID = (case brIncoming r nodeID of None \<Rightarrow> [] | Some xs \<Rightarrow> xs)"

definition evidenceFromBranches :: "branch_result list \<Rightarrow> evidence" where
  "evidenceFromBranches results =
     \<lparr>evRan = concat (map brOutputs results), evChosen = (\<lambda>dst. concat (map (\<lambda>r. recorded r dst) results))\<rparr>"

text \<open>First occurrences, in order.\<close>

fun firsts :: "'a list \<Rightarrow> 'a list \<Rightarrow> 'a list" where
  "firsts seen [] = []"
| "firsts seen (x # xs) = (if x \<in> set seen then firsts seen xs else x # firsts (x # seen) xs)"

definition branch_key :: "string \<Rightarrow> string \<Rightarrow> string" where
  "branch_key router dest = ''branch_'' @ router @ ''_'' @ dest"

text \<open>The last result of a branch that started wins, as the map's last write does.\<close>

definition settledSeedsPerEdge :: "string \<Rightarrow> edge list \<Rightarrow> branch_result list \<Rightarrow> string list" where
  "settledSeedsPerEdge router launched results =
     (let started = rev (map (\<lambda>r. (brID r, brStart r)) (filter (\<lambda>r. brStart r \<noteq> []) results)) in
      filter (\<lambda>nid. nid \<noteq> [])
        (firsts [] (map (\<lambda>ed. case map_of started (branch_key router (eTo ed)) of Some start \<Rightarrow> start | None \<Rightarrow> eTo ed)
          (filter (\<lambda>ed. \<not> IsBoundedIteration ed) launched))))"

definition settledSeedsForTemplate :: "edge option \<Rightarrow> branch_result list \<Rightarrow> string list" where
  "settledSeedsForTemplate tmpl results =
     (let seeds = firsts [] (filter (\<lambda>nid. nid \<noteq> []) (map brStart results)) in
      if seeds \<noteq> [] then seeds
      else (case tmpl of Some ed \<Rightarrow> if IsBoundedIteration ed then [] else [eTo ed] | None \<Rightarrow> []))"

text \<open>The edges the walk follows out of a node: those routing took when it ran, all of them when it did not.\<close>

definition walked :: "evidence \<Rightarrow> edge \<Rightarrow> bool" where
  "walked ev ed \<longleftrightarrow>
     \<not> IsBoundedIteration ed \<and> \<not> (eFrom ed \<in> set (evRan ev) \<and> \<not> edgeInIncoming ed (evChosen ev (eTo ed)))"

definition push_new :: "string \<Rightarrow> string list \<times> string list \<Rightarrow> string list \<times> string list" where
  "push_new nid st = (case st of (frontier, reached) \<Rightarrow>
     if nid = [] \<or> nid \<in> set reached then st else (nid # frontier, nid # reached))"

lemma push_new_measure:
  assumes "set nids \<subseteq> set all" "fold push_new nids (frontier, reached) = (frontier', reached')"
  shows "2 * card (set all - set reached') + length frontier' \<le> 2 * card (set all - set reached) + length frontier"
  using assms
proof (induction nids arbitrary: frontier reached)
  case (Cons nid nids)
  show ?case
  proof (cases "nid = [] \<or> nid \<in> set reached")
    case True
    with Cons show ?thesis by (simp add: push_new_def [of nid "(frontier, reached)"])
  next
    case False
    with Cons.prems have step: "fold push_new nids (nid # frontier, nid # reached) = (frontier', reached')"
      by (simp add: push_new_def [of nid "(frontier, reached)"])
    have "set all - set (nid # reached) = (set all - set reached) - {nid}" by auto
    moreover have "nid \<in> set all - set reached" using Cons.prems(1) False by auto
    ultimately have "card (set all - set (nid # reached)) + 1 = card (set all - set reached)"
      by (metis Diff_empty Diff_insert0 List.finite_set Suc_eq_plus1 card_Suc_Diff1 finite_Diff)
    with Cons.IH [OF _ step] Cons.prems(1) show ?thesis by simp
  qed
qed simp

function walk :: "edge list \<Rightarrow> evidence \<Rightarrow> string \<Rightarrow> string list \<Rightarrow> string list \<Rightarrow> string list" where
  "walk edges ev join [] reached = reached"
| "walk edges ev join (node # frontier) reached =
     (if node = join then walk edges ev join frontier reached
      else (case fold push_new (map eTo (filter (\<lambda>ed. eFrom ed = node \<and> walked ev ed) edges)) (frontier, reached) of
              (frontier', reached') \<Rightarrow> walk edges ev join frontier' reached'))"
  by pat_completeness auto
termination
proof (relation "measure (\<lambda>(edges, ev, join, frontier, reached). 2 * card (set (map eTo edges) - set reached) + length frontier)", goal_cases)
  case (3 edges ev join node frontier reached frontier' reached')
  have "set (map eTo (filter (\<lambda>ed. eFrom ed = node \<and> walked ev ed) edges)) \<subseteq> set (map eTo edges)" by auto
  from push_new_measure [OF this, of frontier reached] 3 show ?case by (auto split: prod.split)
qed simp_all

definition settledEdgesInto :: "engine \<Rightarrow> string list \<Rightarrow> string \<Rightarrow> evidence \<Rightarrow> edge list" where
  "settledEdgesInto e seeds join ev =
     (if join = [] \<or> seeds = [] then []
      else
        (let edges = wfEdges (eWorkflow e);
             (frontier, reached) = fold push_new seeds ([], []);
             reachable = walk edges ev join frontier reached
         in map incomingFromEdge
              (filter (\<lambda>ed. eTo ed = join \<and> \<not> IsBoundedIteration ed \<and> eFrom ed \<noteq> [] \<and> eFrom ed \<in> set reachable \<and>
                 eFrom ed \<notin> set (evRan ev)) edges)))"

definition settledTemplateEdgesInto :: "engine \<Rightarrow> edge option \<Rightarrow> string \<Rightarrow> branch_result list \<Rightarrow> edge list" where
  "settledTemplateEdgesInto e tmpl join results =
     (if results = [] then settledEdgesInto e (settledSeedsForTemplate tmpl []) join (evidenceFromBranches [])
      else
        (let seen = concat (map (\<lambda>r. settledEdgesInto e (settledSeedsForTemplate tmpl [r]) join (evidenceFromBranches [r])) results)
         in firsts [] (filter (\<lambda>i. i \<in> set seen) (map incomingFromEdge (wfEdges (eWorkflow e))))))"

definition setSettledFloor :: "string \<Rightarrow> edge list \<Rightarrow> run_state \<Rightarrow> run_state" where
  "setSettledFloor join settled rs =
     (if join = [] then rs
      else rs\<lparr>rsSettled := (rsSettled rs)(join := if settled = [] then None else Some settled)\<rparr>)"

definition mergeJoinIncoming :: "string \<Rightarrow> branch_result list \<Rightarrow> edge list \<Rightarrow> run_state \<Rightarrow> run_state" where
  "mergeJoinIncoming join results flr rs =
     (if join = [] then rs
      else
        (let union = firsts [] (concat (map (\<lambda>r. if brFailed r then [] else recorded r join) results));
             rs1 = setSettledFloor join flr rs
         in rs1\<lparr>rsIncoming := (rsIncoming rs1)(join := if union = [] then None else Some union)\<rparr>))"

end
