(* ===== verification/DemoRun.thy ===== *)
theory DemoRun
  imports EdgeFacts NodeInput
begin

text \<open>
  A small workflow and a run of it, on which the properties of routing and of node inputs are instantiated.
\<close>

section \<open>A concrete workflow\<close>

definition bare_edge :: "string \<Rightarrow> string \<Rightarrow> edge" where
  "bare_edge from dest = \<lparr>eFrom = from, eTo = dest, eCondition = [], eNegated = False, eExpression = None,
     eExpressionSrc = [], eIsElse = False, eLoopName = [], eForeachName = [], eWith = []\<rparr>"

definition back_edge :: edge where
  "back_edge = (bare_edge ''review'' ''work'')\<lparr>eLoopName := ''retry''\<rparr>"

definition each_edge :: edge where
  "each_edge = (bare_edge ''item'' ''item'')\<lparr>eForeachName := ''scan''\<rparr>"

definition retry_loop :: loop where
  "retry_loop = \<lparr>lName = ''retry'', lMaxIterations = 2, lMaxIterationsExpr = [], lMaxIterationsExprRefs = [],
     lMaxIterationsAST = None, lUnbounded = False, lFuelCap = 0, lGuard = [], lSizedByAST = None,
     lBody = [''work'', ''review''], lEntries = [''work'']\<rparr>"

definition scan_each :: foreach where
  "scan_each = \<lparr>feName = ''scan'', feCollectionRefs = [(RefOutputs, [''plan'', ''items''])]\<rparr>"

definition demo_workflow :: workflow where
  "demo_workflow = \<lparr>wfEntry = ''plan'', wfVars = [], wfNodes = [''plan'', ''work'', ''review'', ''item'', ''done''],
     wfEdges = [bare_edge ''plan'' ''work'', bare_edge ''work'' ''review'', bare_edge ''review'' ''item'', back_edge,
       bare_edge ''item'' ''done'', each_edge],
     wfLoops = [(''retry'', retry_loop)], wfForeaches = [(''scan'', scan_each)], wfBudget = None, wfLoopBudgetGuard = []\<rparr>"

definition demo_engine :: engine where
  "demo_engine = \<lparr>eWorkflow = demo_workflow, eGuardOverride = [], eGuardEnv = [], eLoopCrossings = 0,
     eStandIn = (\<lambda>_. None), eEvalBudget = 1000, eCancelled = (\<lambda>_. False), eMarshal = (\<lambda>_. []), eRender = (\<lambda>_. []), eJSONArray = (\<lambda>_. None),
     eParseFloat = (\<lambda>_. None), eRunURL = [], eTreeNoise = []\<rparr>"

definition demo_state :: run_state where
  "demo_state = \<lparr>rsRunID = ''run'', rsVars = [], rsRunInputs = [],
     rsOutputs = [(''plan'', [(''items'', VList [VInt KInt 1, VInt KInt 2, VInt KInt 3])])], rsArtifacts = [],
     rsAttachments = [], rsCounters = (\<lambda>_. 0), rsEnclosingCounters = (\<lambda>_. 0), rsOverrides = (\<lambda>_. 0),
     rsPrevious = Some (\<lambda>_. None), rsEnclosingPrevious = (\<lambda>_. None), rsCurrent = (\<lambda>_. None),
     rsProgressSig = (\<lambda>_. None), rsStaleness = (\<lambda>_. 0), rsMarks = (\<lambda>_. None), rsSizes = (\<lambda>_. None),
     rsBranchLocal = False, rsBudget = None, rsNow = 0, rsStartedAt = None, rsIncoming = (\<lambda>_. None), rsSettled = (\<lambda>_. None), rsPermissionGrants = (\<lambda>_. [])\<rparr>"

lemmas demo_defs = bare_edge_def back_edge_def each_edge_def retry_loop_def scan_each_def demo_workflow_def demo_engine_def
  demo_state_def

definition demo_out :: "int \<Rightarrow> out_map" where
  "demo_out k = [(''round'', VInt KInt k)]"

lemmas route_eval = demo_defs outgoing_def evaluateEdges_def selectEdge_def start_scan_def scan_edge_def loop_part_def
  foreach_part_def condition_part_def and_next_def loop_edge_def resolveLoopMaxChecked_def resolveLoopMaxBase_def
  loopCapInteger_def json_number_def unguarded_def edgeConditionHolds_def loop_of_def loopBudgetShortfall_def
  loopBudgetGuardEnabledFor_def keep_loop_def keep_else_def fallback_def commit_def enter_loops_def enter_loop_def
  cross_loop_def advance_foreach_def setIncoming_def bump_def markLoopBudget_def rotate_outputs_def Axes_def Let_def

section \<open>Inputs of its loop head\<close>

definition literal_mapping :: "string \<Rightarrow> string \<Rightarrow> data_mapping" where
  "literal_mapping key txt = \<lparr>dmKey = key, dmRefs = [], dmRaw = txt\<rparr>"

definition forward_mapped :: edge where
  "forward_mapped = (bare_edge ''plan'' ''work'')\<lparr>eWith := [literal_mapping ''goal'' ''first'']\<rparr>"

definition sibling_mapped :: edge where
  "sibling_mapped = (bare_edge ''plan'' ''work'')\<lparr>eIsElse := True, eWith := [literal_mapping ''other'' ''x'']\<rparr>"

definition back_mapped :: edge where
  "back_mapped = back_edge\<lparr>eWith := [literal_mapping ''goal'' ''again'']\<rparr>"

definition input_engine :: engine where
  "input_engine = demo_engine\<lparr>eWorkflow := demo_workflow\<lparr>wfEdges := [back_mapped, forward_mapped, sibling_mapped]\<rparr>\<rparr>"

definition reviewed_state :: run_state where
  "reviewed_state = demo_state\<lparr>rsOutputs := [(''plan'', []), (''review'', [])], rsPermissionGrants := (\<lambda>_. [''Bash(ls)''])\<rparr>"

lemmas input_defs = demo_defs literal_mapping_def forward_mapped_def sibling_mapped_def back_mapped_def input_engine_def
  reviewed_state_def

lemmas input_eval = input_defs buildNodeInput_def settledFloorMappings_def floor_edges_def settledFloorEligible_def
  settledFloorFor_def contributing_def contributes_def edge_values_def resolveMapping_def entry_values_def
  incomingMatchesWorkflow_def edgeInIncoming_def incomingEqual_def incomingFromEdge_def incomingOnlyBounded_def
  IsBoundedIteration_def own_grants_def put_all_def GrantInputKey_def RunGrantsInputKey_def gmap_del_def Let_def

end
