(* ===== verification/RoutingClaims.thy ===== *)
theory RoutingClaims
  imports DemoRun
begin

text \<open>
  The properties of routing, each over the definitions of \<open>EdgeSelect\<close> and \<open>WorkflowRun\<close>.
\<close>

lemmas test_eval = route_eval resolves_def edge_loop_def edge_foreach_def loop_cap_def may_stall_def admissible_def
  loop_open_def at_cap_def foreach_open_def loop_spent_def edge_rank_def

section \<open>Which edge\<close>

text \<open>C1. Where the node's caps and collections can be read and no unbounded loop is watched, the one pass over
  the edges selects the first edge of the stable sort of the admissible ones by rank: a condition that holds,
  then an iteration with work left, then \<open>else\<close>, then a bare edge.\<close>

theorem routes_by_rank:
  assumes "\<forall>x \<in> set (outgoing e nodeID). resolves e rs x \<and> \<not> may_stall e x"
  shows "fst (evaluateEdges e nodeID out rs) = Inr (Some ed) \<longleftrightarrow>
    filter (admissible e rs out) (outgoing e nodeID) \<noteq> [] \<and>
    hd (sort_key (edge_rank e) (filter (admissible e rs out) (outgoing e nodeID))) = ed"
proof -
  obtain r rs1 ws where run: "evaluateEdges e nodeID out rs = (r, rs1, ws)" by (cases "evaluateEdges e nodeID out rs")
  let ?adm = "filter (admissible e rs out) (outgoing e nodeID)"
  have steady: "steady e rs out x = admissible e rs out x" if "x \<in> set (outgoing e nodeID)" for x
    using assms that by (simp add: steady_def)
  note ok = evaluateEdges_ok(1) [OF run]
  have best: "hd (sort_key (edge_rank e) ?adm) = x" if "first_choice e rs out (outgoing e nodeID) x" for x
  proof -
    from that obtain p q where pq: "outgoing e nodeID = p @ x # q" "admissible e rs out x"
      "\<forall>y \<in> set p. steady e rs out y \<longrightarrow> edge_rank e x < edge_rank e y"
      "\<forall>y \<in> set q. steady e rs out y \<longrightarrow> edge_rank e x \<le> edge_rank e y"
      by (auto simp: first_choice_def)
    have "hd (sort_key (edge_rank e) (filter (admissible e rs out) p @ x # filter (admissible e rs out) q)) = x"
      using pq steady by (intro hd_sort_key_first) auto
    with pq(1, 2) show ?thesis by simp
  qed
  show ?thesis
  proof (cases "?adm = []")
    case True
    then have "\<not> first_choice e rs out (outgoing e nodeID) ed"
      using first_choice_member [of e rs out "outgoing e nodeID" ed] by (auto simp: filter_empty_conv)
    with True ok run show ?thesis by auto
  next
    case False
    then obtain y where "y \<in> set (outgoing e nodeID)" "steady e rs out y"
      using steady by (auto simp: filter_empty_conv)
    with ok assms obtain x where "r = Inr (Some x)" "first_choice e rs out (outgoing e nodeID) x"
      by (cases "(e, rs, out, outgoing e nodeID, r)" rule: outcome_ok.cases) auto
    with best False run show ?thesis by auto
  qed
qed

theorem routes_by_rank_witness:
  "fst (evaluateEdges demo_engine ''review'' (demo_out 1) demo_state) = Inr (Some back_edge)"
  by (subst routes_by_rank) (simp_all add: test_eval)

text \<open>C4. On the same nodes a run dies of \<open>LOOP_EXHAUSTED\<close> exactly when a loop edge whose condition holds is
  spent and no edge is admissible.\<close>

theorem exhaustion_exact:
  assumes "\<forall>x \<in> set (outgoing e nodeID). resolves e rs x \<and> \<not> may_stall e x"
  shows "(\<exists>c. fst (evaluateEdges e nodeID out rs) = Inl (LoopExhausted c)) \<longleftrightarrow>
    (\<forall>x \<in> set (outgoing e nodeID). \<not> admissible e rs out x) \<and> (\<exists>x \<in> set (outgoing e nodeID). loop_spent e rs out x)"
proof -
  obtain r rs1 ws where run: "evaluateEdges e nodeID out rs = (r, rs1, ws)" by (cases "evaluateEdges e nodeID out rs")
  have steady: "steady e rs out x = admissible e rs out x" if "x \<in> set (outgoing e nodeID)" for x
    using assms that by (simp add: steady_def)
  note ok = evaluateEdges_ok(1) [OF run]
  have "\<exists>c. r = Inl (LoopExhausted c)"
    if "\<forall>x \<in> set (outgoing e nodeID). \<not> admissible e rs out x" "\<exists>x \<in> set (outgoing e nodeID). loop_spent e rs out x"
    using ok that assms first_choice_member [of e rs out "outgoing e nodeID"]
    by (cases "(e, rs, out, outgoing e nodeID, r)" rule: outcome_ok.cases) auto
  moreover have "(\<forall>x \<in> set (outgoing e nodeID). \<not> admissible e rs out x) \<and> (\<exists>x \<in> set (outgoing e nodeID). loop_spent e rs out x)"
    if "r = Inl (LoopExhausted c)" for c
    using ok that steady by auto
  ultimately show ?thesis using run by auto
qed

definition worn_state :: run_state where
  "worn_state = demo_state\<lparr>rsCounters := (\<lambda>name. if name = ''retry'' then 2 else 0)\<rparr>"

definition closed_engine :: engine where
  "closed_engine = demo_engine\<lparr>eWorkflow := demo_workflow\<lparr>wfEdges := [back_edge]\<rparr>\<rparr>"

theorem exhaustion_exact_witness:
  "\<exists>c. fst (evaluateEdges closed_engine ''review'' (demo_out 1) worn_state) = Inl (LoopExhausted c)"
  by (subst exhaustion_exact) (simp_all add: test_eval closed_engine_def worn_state_def)

text \<open>Whatever the workflow, a selected edge leaves the node, its condition holds, its loop is below its cap
  and can fund the iteration, its foreach has an element left; and selecting changes nothing but the
  liveness monitor.\<close>

theorem selection_admissible:
  assumes "evaluateEdges e nodeID out rs = (Inr (Some ed), rs1, ws)"
  shows "ed \<in> set (outgoing e nodeID) \<and> admissible e rs out ed \<and> forget rs1 = forget rs"
  using evaluateEdges_ok [OF assms] first_choice_member [of e rs out "outgoing e nodeID" ed] by simp_all

theorem selection_admissible_witness:
  "back_edge \<in> set (outgoing demo_engine ''review'') \<and> admissible demo_engine demo_state (demo_out 1) back_edge"
  using selection_admissible [of demo_engine "''review''" "demo_out 1" demo_state back_edge demo_state "[]"]
  by (simp add: route_eval)

section \<open>Over a run\<close>

text \<open>C2. In every run a loop with a fixed cap is crossed at most its cap plus the operator's grants since it was
  last entered at its top, and over the whole run at most that many times for the first instance and for each
  entry at its top.\<close>

theorem loop_bounded:
  assumes "run_trace e c tr c'" "capped_loop e name cap" "0 \<le> cap" "rsCounters (snd c) name = 0"
  shows "0 \<le> rsCounters (snd c') name \<and> rsCounters (snd c') name \<le> cap + granted name (snd c') \<and>
    int (crossings name tr) \<le> (cap + granted name (snd c')) * (int (entries e name tr) + 1)"
proof -
  obtain ls where ls: "loop_counter.steps e name cap c ls c'" "loop_counter.bumped_in name ls = crossings name tr"
    "loop_counter.reset_in name e ls = entries e name tr"
    using run_trace_steps [OF assms(1, 2)] by blast
  have "0 \<le> cap + granted name (snd c)" using assms(3) by (simp add: granted_def)
  from loop_counter.steps_accounted [OF ls(1) assms(4) this] loop_counter.bumps_bounded [OF ls(1) assms(4) this] ls(2, 3)
  show ?thesis by simp
qed

text \<open>One round of the demonstration: the review sends the work back.\<close>

definition sent_back :: "string \<times> run_state" where
  "sent_back = (''work'', commit demo_engine back_edge (demo_out 1) demo_state)"

lemma demo_round: "run_trace demo_engine (''review'', demo_state) [(demo_out 1, back_edge)] sent_back"
proof -
  have "evaluateEdges demo_engine ''review'' (demo_out 1) demo_state = (Inr (Some back_edge), demo_state, [])"
    by (simp add: route_eval)
  from run_trace.more [OF run_trace.start run_step.cross [OF this]] show ?thesis
    by (simp add: sent_back_def demo_defs)
qed

lemma demo_capped: "capped_loop demo_engine ''retry'' 2"
  by (simp add: capped_loop_def loop_name_slash fixed_cap_def route_eval)

theorem loop_bounded_witness: "rsCounters (snd sent_back) ''retry'' \<le> 2 \<and> crossings ''retry'' [(demo_out 1, back_edge)] = 1"
  using loop_bounded [OF demo_round demo_capped] by (simp add: demo_state_def granted_def sent_back_def crossings_def back_edge_def)



text \<open>C21. A foreach's index is never reset: whatever the run does, an advance needs an element beyond all the
  advances the run already made, so that a body entered again by an outer loop iterates only the elements
  the passes before left over.\<close>

theorem foreach_never_restarts:
  assumes "run_trace e c tr (n, rs)" "keys_apart e f" "0 \<le> rsCounters (snd c) (foreachCounterKey f)"
    and "evaluateEdges e n out rs = (Inr (Some ed), rs1, ws)" "eForeachName ed = f" "eLoopName ed = []"
    and "map_of (wfForeaches (eWorkflow e)) f = Some fe"
  shows "\<exists>coll. collectionOf e (resolveLoopMax e rs) rs fe = Some coll \<and> advances f tr + 1 < length coll"
proof -
  have "first_choice e rs out (outgoing e n) ed" using evaluateEdges_ok(1) [OF assms(4)] by simp
  with assms(5, 6) have "foreach_open e rs ed"
    using first_choice_member [of e rs out "outgoing e n" ed] by (auto simp: admissible_def edge_loop_def)
  moreover have "edge_foreach e ed = Some fe" "f \<noteq> []"
    using assms(2, 5, 7) by (auto simp: edge_foreach_def keys_apart_def)
  ultimately obtain coll where "collectionOf e (resolveLoopMax e rs) rs fe = Some coll"
    "rsCounters rs (foreachCounterKey f) + 1 < int (length coll)"
    using assms(5) by (auto simp: foreach_open_def split: option.splits)
  with foreach_index_counts [OF assms(1, 2)] assms(3) show ?thesis by auto
qed

theorem foreach_never_restarts_witness:
  "\<exists>coll. collectionOf demo_engine (resolveLoopMax demo_engine demo_state) demo_state scan_each = Some coll \<and> 1 < length coll"
proof -
  have sel: "evaluateEdges demo_engine ''item'' [] demo_state = (Inr (Some each_edge), demo_state, [])"
    by (simp add: route_eval collectionOf_def resolveRef_def foreachCounterKey_def matchOutputNode_def path_splits_def
        read_entry_def upt_rec)
  have apart: "keys_apart demo_engine ''scan''"
    by (auto simp: keys_apart_def foreachCounterKey_def demo_defs)
  show ?thesis
    using foreach_never_restarts [OF run_trace.start apart _ sel]
    by (simp add: demo_defs advances_def)
qed

section \<open>Liveness\<close>

text \<open>C12. The monitor of an unbounded loop declines its edge exactly when the three outputs before this one had
  its JSON text: a loop at a fixpoint is left at the fourth equal output, and one whose output changes is
  never declined.\<close>

theorem stall_exact:
  assumes "rsProgressSig rs name = None"
  shows "fst (loopStalled e name out (watch e name outs rs)) \<longleftrightarrow>
    (\<exists>p a b c. outs = p @ [a, b, c] \<and> {eMarshal e a, eMarshal e b, eMarshal e c} = {eMarshal e out})"
proof -
  have "3 \<le> repeats e out outs \<longleftrightarrow>
    (\<exists>p a b c. outs = p @ [a, b, c] \<and> {eMarshal e a, eMarshal e b, eMarshal e c} = {eMarshal e out})"
  proof (cases outs rule: rev_cases)
    case (snoc xs z)
    show ?thesis
    proof (cases xs rule: rev_cases)
      case (snoc ys y)
      show ?thesis
      proof (cases ys rule: rev_cases)
        case (snoc ws w)
        then show ?thesis
          using \<open>outs = xs @ [z]\<close> \<open>xs = ys @ [y]\<close> by (auto simp: repeats_def)
      qed (use \<open>outs = xs @ [z]\<close> \<open>xs = ys @ [y]\<close> in \<open>auto simp: repeats_def\<close>)
    qed (use snoc in \<open>auto simp: repeats_def\<close>)
  qed (simp add: repeats_def)
  with stalled_iff [OF assms] show ?thesis by simp
qed

theorem stall_exact_witness: "fst (loopStalled demo_engine ''l'' (demo_out 4) (watch demo_engine ''l'' [demo_out 1, demo_out 2, demo_out 3] demo_state))"
  by (subst stall_exact) (auto simp: demo_defs intro: exI [of _ "[]"])




section \<open>Collections and caps\<close>

text \<open>C20. Opening a collection returns, within a stack of one frame per declared foreach, exactly when its chain
  of element references does not come back to itself; when it does, no depth of the stack is enough. The
  engine opens such a collection without a guard, and no diagnostic of the compiler refuses it.\<close>

theorem collection_returns_iff_grounded:
  "(collectionOf e m rs fe \<noteq> None \<longleftrightarrow> \<not> ungrounded e fe) \<and>
   (ungrounded e fe \<longrightarrow> (\<forall>depth. resolveForeachCollection e m rs depth fe = None))"
proof (cases "ungrounded e fe")
  case True
  then have none: "resolveForeachCollection e m rs depth fe = None" for depth by (rule ungrounded_diverges)
  then have "collectionOf e m rs fe = None" unfolding collectionOf_def .
  with True none show ?thesis by blast
next
  case False
  with grounded_resolves show ?thesis by blast
qed

definition own_each :: foreach where
  "own_each = \<lparr>feName = ''scan'', feCollectionRefs = [(RefEach, [''scan'', ''item''])]\<rparr>"

definition own_engine :: engine where
  "own_engine = demo_engine\<lparr>eWorkflow := demo_workflow\<lparr>wfForeaches := [(''scan'', own_each)]\<rparr>\<rparr>"

theorem collection_returns_iff_grounded_witness: "resolveForeachCollection own_engine (\<lambda>_. None) demo_state 1000 own_each = None"
proof -
  have "opens own_engine own_each = Some own_each"
    by (simp add: opens_def own_engine_def own_each_def each_split_def path_splits_def upt_rec demo_defs)
  then have "(own_each, own_each) \<in> opens_rel own_engine" by (simp add: opens_rel_def)
  then have "ungrounded own_engine own_each" by (auto simp: ungrounded_def)
  with collection_returns_iff_grounded [of own_engine "\<lambda>_. None" demo_state own_each] show ?thesis by blast
qed

text \<open>C38. Under the compiler's rule that a cap reads variables and outputs only, the effective caps that
  \<open>loop.<name>.max\<close> reads do not depend on how deep a cap may read another: two levels decide as any number
  of levels does.\<close>

theorem cap_depth_enough:
  assumes "\<forall>(name, l) \<in> set (wfLoops (eWorkflow e)). cap_checked l" "\<And>w. \<not> eCancelled e w"
  shows "maxReader e rs (Suc depth) = resolveLoopMax e rs"
  unfolding resolveLoopMax_def by (rule maxReader_depth [OF assms])

theorem cap_depth_enough_witness: "maxReader demo_engine demo_state 7 ''retry'' = resolveLoopMax demo_engine demo_state ''retry''"
  using cap_depth_enough [of demo_engine demo_state 6]
  by (simp add: cap_checked_def demo_defs eval_nat_numeral)

section \<open>Affordability\<close>

text \<open>C25. Crossing a loop's edge prices the next iteration from that instant: right after the commit, with
  nothing booked since, the guard declines no further crossing, whatever the consumption, the caps, the
  size of the work and the rounding.\<close>

theorem crossing_reprices:
  assumes "eLoopName ed \<noteq> []"
  shows "loopBudgetShortfall e (commit e ed out rs) (eLoopName ed) = None"
proof -
  define rs1 where "rs1 = bump (eLoopName ed) (advance_foreach ed (enter_loops e ed rs))"
  have "commit e ed out rs = setIncoming ed (rotate_outputs (eLoopName ed) out (markLoopBudget e (eLoopName ed) rs1))"
    using assms by (simp add: commit_def cross_loop_def rs1_def)
  then show ?thesis
    by (intro fresh_mark_free [of _ _ e rs1]) (simp_all add: rotate_setIncoming_keep)
qed

theorem crossing_reprices_witness:
  "loopBudgetShortfall demo_engine (commit demo_engine back_edge (demo_out 1) demo_state) ''retry'' = None"
  using crossing_reprices [of back_edge demo_engine "demo_out 1" demo_state] by (simp add: demo_defs)






end
