(* ===== verification/NodeInputOk.thy ===== *)
theory NodeInputOk
  imports NodeInput
begin

text \<open>
  Facts of the node input: layers of assignments on a map, blocks of a template, the closure of the
  settled walk and the agreement of floor mappings.
\<close>

section \<open>Layers of assignments\<close>

lemma put_all_ok: "gmap_ok m \<Longrightarrow> gmap_ok (put_all kvs m)"
  by (induction kvs arbitrary: m) (auto simp: put_all_def gmap_ok_put)

lemma map_of_put_all:
  "gmap_ok m \<Longrightarrow> map_of (put_all kvs m) k = (case map_of (rev kvs) k of Some v \<Rightarrow> Some v | None \<Rightarrow> map_of m k)"
proof (induction kvs arbitrary: m)
  case (Cons kv kvs)
  obtain k' v where kv: "kv = (k', v)" by (cases kv)
  have "map_of (put_all (kv # kvs) m) k = (case map_of (rev kvs) k of Some v \<Rightarrow> Some v | None \<Rightarrow> map_of (gmap_put k' v m) k)"
    using Cons.IH [OF gmap_ok_put [OF Cons.prems], of k' v] by (simp add: put_all_def kv)
  then show ?case
    using gmap_get_put [OF Cons.prems, of k' v k] by (auto simp: kv gmap_get_def map_add_def split: option.split)
qed (simp add: put_all_def)

lemma map_of_put_all_Nil [simp]: "map_of (put_all kvs []) k = map_of (rev kvs) k"
  using map_of_put_all [of "[]" kvs k] by (simp split: option.split)

lemma map_of_gmap_del: "map_of (gmap_del k m) k' = (if k' = k then None else map_of m k')"
  by (induction m) (auto simp: gmap_del_def)

lemma gmap_ok_del: "gmap_ok m \<Longrightarrow> gmap_ok (gmap_del k m)"
proof -
  assume "gmap_ok m"
  then have "sorted_wrt (<) (map fst m)" by (simp add: gmap_ok_def)
  then have "sorted_wrt (<) (map fst (filter (\<lambda>x. fst x \<noteq> k) m))"
    by (simp add: sorted_wrt_map sorted_wrt_filter)
  then show ?thesis by (simp add: gmap_ok_def gmap_del_def)
qed

lemma own_grants_reads:
  assumes "gmap_ok m"
  shows "map_of (own_grants rs nodeID m) k =
    (if k = RunGrantsInputKey then
       (if rsPermissionGrants rs nodeID = [] then None else Some (VTSlice ''[]string'' (map VString (rsPermissionGrants rs nodeID))))
     else if k = GrantInputKey then None else map_of m k)"
proof -
  let ?m = "gmap_del RunGrantsInputKey (gmap_del GrantInputKey m)"
  have "gmap_ok ?m" using assms by (simp add: gmap_ok_del)
  from gmap_get_put [OF this] show ?thesis
    by (auto simp: own_grants_def Let_def gmap_get_def map_of_gmap_del)
qed

text \<open>The layers of an input, the later ones over the earlier ones.\<close>

lemma buildNodeInput_layers:
  assumes "buildNodeInput e rs sc incoming nodeID = Some m"
  obtains settled refs mapped where
    "settledFloorMappings e rs sc nodeID = Some (settled, refs)"
    "all_some (map (edge_values e rs sc) (contributing e sc incoming nodeID)) = Some mapped"
    "\<And>k. map_of m k =
       (if k = RunGrantsInputKey then
          (if rsPermissionGrants rs nodeID = [] then None else Some (VTSlice ''[]string'' (map VString (rsPermissionGrants rs nodeID))))
        else if k = GrantInputKey then None
        else map_of (rev (entry_values e sc nodeID @ settled @ concat mapped)) k)"
proof -
  from assms obtain settled refs mapped where layers: "settledFloorMappings e rs sc nodeID = Some (settled, refs)"
    "all_some (map (edge_values e rs sc) (contributing e sc incoming nodeID)) = Some mapped"
    "m = own_grants rs nodeID (put_all (concat mapped) (put_all settled (put_all (entry_values e sc nodeID) [])))"
    by (auto simp: buildNodeInput_def split: option.splits)
  have ok: "gmap_ok (put_all settled (put_all (entry_values e sc nodeID) []))" "gmap_ok (put_all (entry_values e sc nodeID) [])"
    by (simp_all add: put_all_ok)
  have "map_of (put_all (concat mapped) (put_all settled (put_all (entry_values e sc nodeID) []))) k =
      map_of (rev (entry_values e sc nodeID @ settled @ concat mapped)) k" for k
    by (simp add: map_of_put_all [OF ok(1)] map_of_put_all [OF ok(2)] map_add_def split: option.split)
  with layers own_grants_reads [OF put_all_ok [OF ok(1)]] that show ?thesis by simp
qed

lemma all_some_member:
  "all_some xs = Some ys \<Longrightarrow> y \<in> set ys \<longleftrightarrow> Some y \<in> set xs"
  by (induction xs arbitrary: ys rule: all_some.induct) auto

lemma all_some_length: "all_some xs = Some ys \<Longrightarrow> length ys = length xs"
  by (induction xs arbitrary: ys rule: all_some.induct) auto

lemma all_some_append:
  "all_some (xs @ ys) = Some zs \<Longrightarrow> \<exists>us vs. zs = us @ vs \<and> all_some xs = Some us \<and> all_some ys = Some vs"
  by (induction xs arbitrary: zs rule: all_some.induct) auto

lemma mapped_from_edge:
  assumes "all_some (map f eds) = Some mapped" "kv \<in> set (concat mapped)"
  obtains ed vals where "ed \<in> set eds" "f ed = Some vals" "kv \<in> set vals"
proof -
  from assms(2) obtain vals where vals: "vals \<in> set mapped" "kv \<in> set vals" by auto
  with all_some_member [OF assms(1)] obtain ed where "ed \<in> set eds" "f ed = Some vals" by (metis imageE list.set_map)
  with vals that show ?thesis by blast
qed

lemma all_some_total: "all_some xs = Some ys \<Longrightarrow> x \<in> set xs \<Longrightarrow> x \<noteq> None"
  by (induction xs arbitrary: ys rule: all_some.induct) auto

lemma all_some_image:
  assumes "all_some (map f xs) = Some ys" "x \<in> set xs"
  shows "\<exists>y. f x = Some y \<and> y \<in> set ys"
proof -
  have mem: "f x \<in> set (map f xs)" using assms(2) by simp
  with all_some_total [OF assms(1)] obtain y where "f x = Some y" by (cases "f x") auto
  with mem all_some_member [OF assms(1), of y] show ?thesis by simp
qed

lemma edge_values_keys:
  assumes "edge_values e rs sc ed = Some vals" "k \<in> dmKey ` set (eWith ed)"
  shows "k \<in> fst ` set vals"
proof -
  from assms(2) obtain dm where dm: "dm \<in> set (eWith ed)" "dmKey dm = k" by auto
  let ?f = "\<lambda>dm. map_option (\<lambda>v. (dmKey dm, v))
    (resolveMapping e rs (sc\<lparr>rsRunInputs := case map_of (rsOutputs sc) (eFrom ed) of Some out \<Rightarrow> out | None \<Rightarrow> []\<rparr>) dm)"
  from assms(1) have all: "all_some (map ?f (eWith ed)) = Some vals" by (simp add: edge_values_def Let_def)
  have mem: "?f dm \<in> set (map ?f (eWith ed))" using dm(1) by auto
  from all_some_total [OF all mem] obtain kv where kv: "?f dm = Some kv" by (cases "?f dm") auto
  with mem all_some_member [OF all, of kv] have "kv \<in> set vals" by simp
  moreover from kv have "fst kv = k" using dm(2) by (cases "resolveMapping e rs
      (sc\<lparr>rsRunInputs := case map_of (rsOutputs sc) (eFrom ed) of Some out \<Rightarrow> out | None \<Rightarrow> []\<rparr>) dm") auto
  ultimately show ?thesis by auto
qed

section \<open>The blocks of a template\<close>

text \<open>Ascending, disjoint, each of them from \<open>{{\<close> to \<open>}}\<close>, from an offset on.\<close>

fun blocks_ok :: "string \<Rightarrow> nat \<Rightarrow> (nat \<times> nat) list \<Rightarrow> bool" where
  "blocks_ok raw off [] \<longleftrightarrow> off \<le> length raw"
| "blocks_ok raw off ((a, b) # sps) \<longleftrightarrow>
     off \<le> a \<and> a + 4 \<le> b \<and> b \<le> length raw \<and> take 2 (drop a raw) = ''{{'' \<and> take 2 (drop (b - 2) raw) = ''}}'' \<and>
     blocks_ok raw b sps"

lemma spans_from_ok: "off \<le> length raw \<Longrightarrow> blocks_ok raw off (spans_from off (drop off raw))"
proof (induction off "drop off raw" arbitrary: off rule: spans_from.induct)
  case (1 off)
  show ?case
  proof (cases "index_of ''{{'' (drop off raw)")
    case None
    with 1(2) show ?thesis by (simp add: spans_from.simps)
  next
    case start: (Some start)
    show ?thesis
    proof (cases "index_of ''}}'' (drop start (drop off raw))")
      case None
      with start 1(2) show ?thesis by (simp add: spans_from.simps)
    next
      case len: (Some len)
      from index_of_bound [OF start] have st: "start + 2 \<le> length raw - off" "take 2 (drop (off + start) raw) = ''{{''"
        by (simp_all add: add.commute numeral_2_eq_2)
      from index_of_bound [OF len] have ln: "len + 2 \<le> length raw - (off + start)"
        "take 2 (drop (off + start + len) raw) = ''}}''"
        by (simp_all add: add.commute add.left_commute numeral_2_eq_2)
      have "2 \<le> len"
      proof (rule ccontr)
        assume "\<not> 2 \<le> len"
        then consider "len = 0" | "len = 1" by linarith
        then show False
        proof cases
          case 1
          with ln(2) st(2) show False by simp
        next
          case 2
          have "drop (off + start) raw ! 1 = CHR ''{''" using st(2) st(1) by (metis nth_take nth_Cons_Suc nth_Cons_0 one_less_numeral_iff semiring_norm(76) One_nat_def)
          moreover have "drop (off + start + 1) raw ! 0 = CHR ''}''" using ln(2) 2 by (metis nth_take nth_Cons_0 zero_less_numeral)
          ultimately show False using ln(1) 2 by simp
        qed
      qed
      let ?off = "off + start + len + 2"
      have drops: "drop (start + len + 2) (drop off raw) = drop ?off raw" by (simp add: add.commute add.left_commute)
      have "?off \<le> length raw" using ln(1) st(1) 1(2) by linarith
      from 1(1) [OF start len drops this] have "blocks_ok raw ?off (spans_from ?off (drop ?off raw))" .
      with start len drops st ln \<open>2 \<le> len\<close> \<open>?off \<le> length raw\<close> show ?thesis
        by (subst spans_from.simps) simp
    qed
  qed
qed

lemma splice_blocks:
  "blocks_ok raw off sps \<Longrightarrow> splice raw off sps (map (\<lambda>(a, b). take (b - a) (drop a raw)) sps) = drop off raw"
proof (induction raw off sps rule: blocks_ok.induct)
  case (2 raw off a b sps)
  then have "splice raw b sps (map (\<lambda>(a, b). take (b - a) (drop a raw)) sps) = drop b raw" by simp
  moreover have "take (a - off) (drop off raw) @ take (b - a) (drop a raw) @ drop b raw = drop off raw"
  proof -
    have "drop a raw = take (b - a) (drop a raw) @ drop b raw"
      using 2(2) by (metis append_take_drop_id drop_drop le_add_diff_inverse2 add_leD1 blocks_ok.simps(2))
    moreover have "drop off raw = take (a - off) (drop off raw) @ drop a raw"
      using 2(2) by (metis append_take_drop_id drop_drop le_add_diff_inverse2 blocks_ok.simps(2))
    ultimately show ?thesis by simp
  qed
  ultimately show ?case by simp
qed simp

section \<open>The settled walk\<close>

text \<open>One step of the walk: along a walked edge, never out of the join.\<close>

definition walk_step :: "edge list \<Rightarrow> evidence \<Rightarrow> string \<Rightarrow> (string \<times> string) set" where
  "walk_step edges ev join =
     {(a, b). a \<noteq> join \<and> b \<noteq> [] \<and> (\<exists>ed \<in> set edges. eFrom ed = a \<and> eTo ed = b \<and> walked ev ed)}"

lemma push_all:
  "fold push_new nids (frontier, reached) = (frontier', reached') \<Longrightarrow>
    set reached' = set reached \<union> {n \<in> set nids. n \<noteq> []} \<and>
    set frontier' = set frontier \<union> ({n \<in> set nids. n \<noteq> []} - set reached)"
proof (induction nids arbitrary: frontier reached)
  case (Cons n nids)
  show ?case
  proof (cases "n = [] \<or> n \<in> set reached")
    case True
    with Cons show ?thesis by (auto simp: push_new_def [of n "(frontier, reached)"])
  next
    case False
    with Cons.prems have "fold push_new nids (n # frontier, n # reached) = (frontier', reached')"
      by (simp add: push_new_def [of n "(frontier, reached)"])
    from Cons.IH [OF this] False show ?thesis by auto
  qed
qed simp

text \<open>Every node off the frontier has its successors reached: the walk ends in the closure.\<close>

lemma walk_closure:
  assumes "set frontier \<subseteq> set reached" "\<forall>a \<in> set reached - set frontier. walk_step edges ev join `` {a} \<subseteq> set reached"
  shows "set (walk edges ev join frontier reached) = (walk_step edges ev join)\<^sup>* `` set reached"
  using assms
proof (induction edges ev join frontier reached rule: walk.induct)
  case (1 edges ev join reached)
  then have closed: "walk_step edges ev join `` set reached \<subseteq> set reached" by auto
  then have "(walk_step edges ev join)\<^sup>* `` set reached = set reached" by (rule Image_closed_trancl)
  then show ?case by simp
next
  case (2 edges ev join node frontier reached)
  show ?case
  proof (cases "node = join")
    case True
    then have none: "walk_step edges ev join `` {node} = {}" by (auto simp: walk_step_def)
    have "\<forall>a \<in> set reached - set frontier. walk_step edges ev join `` {a} \<subseteq> set reached"
    proof
      fix a assume a: "a \<in> set reached - set frontier"
      show "walk_step edges ev join `` {a} \<subseteq> set reached"
        using a none 2(4) by (cases "a = node") auto
    qed
    with 2(1) [OF True] 2(3) True show ?thesis by simp
  next
    case False
    let ?next = "map eTo (filter (\<lambda>ed. eFrom ed = node \<and> walked ev ed) edges)"
    obtain frontier' reached' where pushed: "fold push_new ?next (frontier, reached) = (frontier', reached')"
      by (cases "fold push_new ?next (frontier, reached)")
    note sets = push_all [OF pushed]
    have succ: "walk_step edges ev join `` {node} = {n \<in> set ?next. n \<noteq> []}"
      using False by (auto simp: walk_step_def)
    have "set frontier' \<subseteq> set reached'" using sets 2(3) by auto
    moreover have "\<forall>a \<in> set reached' - set frontier'. walk_step edges ev join `` {a} \<subseteq> set reached'"
    proof
      fix a assume a: "a \<in> set reached' - set frontier'"
      then have "a \<in> set reached" using sets by auto
      show "walk_step edges ev join `` {a} \<subseteq> set reached'"
      proof (cases "a = node")
        case True
        with succ sets show ?thesis by auto
      next
        case False
        with a sets \<open>a \<in> set reached\<close> have "a \<in> set reached - set (node # frontier)" by auto
        with 2(4) sets show ?thesis by auto
      qed
    qed
    ultimately have "set (walk edges ev join frontier' reached') = (walk_step edges ev join)\<^sup>* `` set reached'"
      using 2(2) [OF False pushed [symmetric]] by simp
    moreover have "(walk_step edges ev join)\<^sup>* `` set reached' = (walk_step edges ev join)\<^sup>* `` set reached"
    proof
      show "(walk_step edges ev join)\<^sup>* `` set reached \<subseteq> (walk_step edges ev join)\<^sup>* `` set reached'" using sets by auto
      have "set reached' \<subseteq> (walk_step edges ev join)\<^sup>* `` set reached"
      proof
        fix n assume n: "n \<in> set reached'"
        show "n \<in> (walk_step edges ev join)\<^sup>* `` set reached"
        proof (cases "n \<in> set reached")
          case False
          with n sets have "n \<in> {n \<in> set ?next. n \<noteq> []}" by auto
          then have "n \<in> walk_step edges ev join `` {node}" unfolding succ .
          moreover have "node \<in> set reached" using 2(3) by simp
          ultimately show ?thesis by blast
        qed blast
      qed
      then show "(walk_step edges ev join)\<^sup>* `` set reached' \<subseteq> (walk_step edges ev join)\<^sup>* `` set reached"
        by (meson ImageE ImageI rtrancl_trans subset_iff)
    qed
    ultimately show ?thesis using False pushed by simp
  qed
qed

lemma settledEdgesInto_set:
  assumes "join \<noteq> []"
  shows "set (settledEdgesInto e seeds join ev) =
    {incomingFromEdge ed | ed s. ed \<in> set (wfEdges (eWorkflow e)) \<and> eTo ed = join \<and> \<not> IsBoundedIteration ed \<and>
       eFrom ed \<noteq> [] \<and> eFrom ed \<notin> set (evRan ev) \<and> s \<in> set seeds \<and> s \<noteq> [] \<and>
       (s, eFrom ed) \<in> (walk_step (wfEdges (eWorkflow e)) ev join)\<^sup>*}"
proof -
  let ?edges = "wfEdges (eWorkflow e)"
  obtain frontier reached where pushed: "fold push_new seeds ([], []) = (frontier, reached)"
    by (cases "fold push_new seeds ([], [])")
  from push_all [OF pushed] have sets: "set reached = {n \<in> set seeds. n \<noteq> []}" "set frontier = set reached" by auto
  have "set (walk ?edges ev join frontier reached) = (walk_step ?edges ev join)\<^sup>* `` set reached"
    by (rule walk_closure) (use sets in auto)
  then show ?thesis
    using assms sets by (auto simp: settledEdgesInto_def pushed Let_def)
qed

section \<open>Joins\<close>

lemma set_firsts: "set (firsts seen xs) = set xs - set seen"
  by (induction seen xs rule: firsts.induct) auto

lemma distinct_firsts: "distinct (firsts seen xs)"
  by (induction seen xs rule: firsts.induct) (auto simp: set_firsts)

section \<open>The agreement of floor mappings\<close>

text \<open>What one mapping resolves to on the floor.\<close>

definition floor_val :: "engine \<Rightarrow> run_state \<Rightarrow> run_state \<Rightarrow> data_mapping \<Rightarrow> gval option" where
  "floor_val e rs sc dm = resolveMapping e rs (sc\<lparr>rsRunInputs := []\<rparr>) dm"

text \<open>The first mapping of the key decides what the others are compared with.\<close>

definition agree :: "engine \<Rightarrow> run_state \<Rightarrow> run_state \<Rightarrow> data_mapping list \<Rightarrow> string \<Rightarrow> bool" where
  "agree e rs sc dms k \<longleftrightarrow>
     (case filter (\<lambda>dm. dmKey dm = k) dms of
        [] \<Rightarrow> False
      | first # rest \<Rightarrow>
          (\<forall>dm \<in> set rest. dmRaw dm = dmRaw first \<or>
             (\<exists>v w. floor_val e rs sc first = Some v \<and> floor_val e rs sc dm = Some w \<and> deepEqual v w)))"

definition key_entry :: "engine \<Rightarrow> run_state \<Rightarrow> run_state \<Rightarrow> data_mapping list \<Rightarrow> floor_value \<Rightarrow> bool" where
  "key_entry e rs sc dms fv \<longleftrightarrow>
     (case filter (\<lambda>dm. dmKey dm = fvKey fv) dms of
        [] \<Rightarrow> False
      | first # rest \<Rightarrow> fvRaw fv = dmRaw first \<and> floor_val e rs sc first = Some (fvValue fv)) \<and>
     (fvDecided fv \<longleftrightarrow> agree e rs sc dms (fvKey fv))"

definition floor_inv :: "engine \<Rightarrow> run_state \<Rightarrow> run_state \<Rightarrow> data_mapping list \<Rightarrow> floor_value list \<Rightarrow> bool" where
  "floor_inv e rs sc dms fvs \<longleftrightarrow>
     distinct (map fvKey fvs) \<and> fvKey ` set fvs = dmKey ` set dms \<and> (\<forall>fv \<in> set fvs. key_entry e rs sc dms fv)"

lemma key_entry_other:
  "fvKey fv \<noteq> dmKey dm \<Longrightarrow> key_entry e rs sc (dms @ [dm]) fv = key_entry e rs sc dms fv"
  by (simp add: key_entry_def agree_def)

lemma floor_inv_step:
  assumes inv: "floor_inv e rs sc dms fvs" and step: "floor_step e rs sc dm (Some fvs) = Some fvs'"
  shows "floor_inv e rs sc (dms @ [dm]) fvs'"
proof (cases "find (\<lambda>fv. fvKey fv = dmKey dm) fvs")
  case None
  then have fresh: "dmKey dm \<notin> fvKey ` set fvs" by (auto simp: find_None_iff)
  with step None obtain v where v: "floor_val e rs sc dm = Some v"
    "fvs' = fvs @ [\<lparr>fvKey = dmKey dm, fvValue = v, fvRaw = dmRaw dm, fvRefs = dmRefs dm, fvDecided = True\<rparr>]"
    by (auto simp: floor_step_def floor_val_def split: option.splits)
  have "filter (\<lambda>x. dmKey x = dmKey dm) dms = []"
    using fresh inv by (auto simp: floor_inv_def filter_empty_conv) (metis imageI)
  with inv fresh v show ?thesis
    by (auto simp: floor_inv_def key_entry_other key_entry_def agree_def)
next
  case (Some fv)
  then have fv: "fv \<in> set fvs" "fvKey fv = dmKey dm" by (auto simp: find_Some_iff)
  with inv have entry: "key_entry e rs sc dms fv" by (simp add: floor_inv_def)
  then obtain first rest where first: "filter (\<lambda>x. dmKey x = dmKey dm) dms = first # rest" "fvRaw fv = dmRaw first"
    "floor_val e rs sc first = Some (fvValue fv)"
    using fv(2) by (auto simp: key_entry_def split: list.splits)
  have key: "dmKey dm \<in> dmKey ` set dms" using inv fv by (metis floor_inv_def imageI)
  have agree_snoc: "agree e rs sc (dms @ [dm]) (dmKey dm) \<longleftrightarrow> agree e rs sc dms (dmKey dm) \<and>
      (dmRaw dm = fvRaw fv \<or> (\<exists>w. floor_val e rs sc dm = Some w \<and> deepEqual (fvValue fv) w))"
    using first by (auto simp: agree_def)
  have same: "x = fv" if "x \<in> set fvs" "fvKey x = dmKey dm" for x
    using that fv inv by (auto simp: floor_inv_def distinct_map inj_on_def)
  show ?thesis
  proof (cases "fvRaw fv = dmRaw dm")
    case True
    with step Some have "fvs' = fvs" by (simp add: floor_step_def)
    moreover have "key_entry e rs sc (dms @ [dm]) x" if "x \<in> set fvs" for x
    proof (cases "fvKey x = dmKey dm")
      case True
      with same that have "x = fv" by blast
      with entry first fv(2) agree_snoc \<open>fvRaw fv = dmRaw dm\<close> show ?thesis by (simp add: key_entry_def)
    next
      case False
      with inv that show ?thesis by (simp add: key_entry_other floor_inv_def)
    qed
    ultimately show ?thesis using inv key by (auto simp: floor_inv_def)
  next
    case False
    with step Some obtain w where w: "floor_val e rs sc dm = Some w"
      "fvs' = map (\<lambda>x. if fvKey x \<noteq> dmKey dm \<or> \<not> fvDecided x then x
                       else if \<not> deepEqual (fvValue x) w then x\<lparr>fvDecided := False\<rparr>
                       else x\<lparr>fvRefs := fvRefs x @ dmRefs dm\<rparr>) fvs"
      by (auto simp: floor_step_def floor_val_def split: option.splits)
    have keys: "map fvKey fvs' = map fvKey fvs" using w(2) by simp
    have "key_entry e rs sc (dms @ [dm]) y" if "y \<in> set fvs'" for y
    proof -
      from that w(2) obtain x where x: "x \<in> set fvs"
        "y = (if fvKey x \<noteq> dmKey dm \<or> \<not> fvDecided x then x
              else if \<not> deepEqual (fvValue x) w then x\<lparr>fvDecided := False\<rparr> else x\<lparr>fvRefs := fvRefs x @ dmRefs dm\<rparr>)"
        by auto
      show ?thesis
      proof (cases "fvKey x = dmKey dm")
        case True
        with same x(1) have "x = fv" by blast
        with entry first fv(2) agree_snoc False w(1) x(2) show ?thesis by (auto simp: key_entry_def)
      next
        case False
        with inv x show ?thesis by (simp add: key_entry_other floor_inv_def)
      qed
    qed
    moreover have "distinct (map fvKey fvs')" using keys inv by (simp add: floor_inv_def)
    moreover have "fvKey ` set fvs' = dmKey ` set (dms @ [dm])"
      using keys inv key by (metis (no_types, lifting) floor_inv_def insert_absorb list.set_map list.simps(15) set_append Un_insert_right
          list.set(1) sup_bot_right image_insert)
    ultimately show ?thesis by (simp add: floor_inv_def)
  qed
qed

lemma floor_fold_None: "fold (floor_step e rs sc) dms None = None"
  by (induction dms) (simp_all add: floor_step_def)

lemma floor_inv_fold:
  "floor_inv e rs sc dms0 fvs \<Longrightarrow> fold (floor_step e rs sc) dms (Some fvs) = Some fvs' \<Longrightarrow> floor_inv e rs sc (dms0 @ dms) fvs'"
proof (induction dms arbitrary: dms0 fvs)
  case (Cons dm dms)
  then obtain fvs1 where "floor_step e rs sc dm (Some fvs) = Some fvs1"
    by (cases "floor_step e rs sc dm (Some fvs)") (auto simp: floor_fold_None)
  with Cons floor_inv_step [OF Cons.prems(1) this] Cons.IH [of "dms0 @ [dm]" fvs1] show ?case by simp
qed simp

lemma floor_inv_start: "floor_inv e rs sc [] []"
  by (simp add: floor_inv_def)

lemma key_entry_decided: "key_entry e rs sc dms fv \<Longrightarrow> fvDecided fv = agree e rs sc dms (fvKey fv)"
  by (simp add: key_entry_def)

lemma key_entry_first:
  assumes "key_entry e rs sc dms fv"
  shows "\<exists>dm \<in> set dms. dmKey dm = fvKey fv \<and> floor_val e rs sc dm = Some (fvValue fv)"
proof (cases "filter (\<lambda>dm. dmKey dm = fvKey fv) dms")
  case (Cons first rest)
  then have "first \<in> set (filter (\<lambda>dm. dmKey dm = fvKey fv) dms)" by simp
  then have "first \<in> set dms" "dmKey first = fvKey fv" by simp_all
  moreover have "floor_val e rs sc first = Some (fvValue fv)" using assms Cons by (simp add: key_entry_def)
  ultimately show ?thesis by blast
qed (use assms in \<open>simp add: key_entry_def\<close>)

lemma agree_mapped: "agree e rs sc dms k \<Longrightarrow> k \<in> dmKey ` set dms"
proof (rule ccontr)
  assume "agree e rs sc dms k" "k \<notin> dmKey ` set dms"
  then have "\<forall>dm \<in> set dms. dmKey dm \<noteq> k" by blast
  then have "filter (\<lambda>dm. dmKey dm = k) dms = []" by (simp add: filter_empty_conv)
  with \<open>agree e rs sc dms k\<close> show False by (simp add: agree_def)
qed

lemma floor_inv_settled:
  assumes inv: "floor_inv e rs sc dms fvs"
  shows "fst ` set (map (\<lambda>fv. (fvKey fv, fvValue fv)) (filter fvDecided fvs)) = {k. agree e rs sc dms k}"
    "distinct (map fst (map (\<lambda>fv. (fvKey fv, fvValue fv)) (filter fvDecided fvs)))"
    "(k, v) \<in> set (map (\<lambda>fv. (fvKey fv, fvValue fv)) (filter fvDecided fvs)) \<Longrightarrow>
      \<exists>dm \<in> set dms. dmKey dm = k \<and> floor_val e rs sc dm = Some v"
proof -
  have entry: "\<And>fv. fv \<in> set fvs \<Longrightarrow> key_entry e rs sc dms fv" and keys: "fvKey ` set fvs = dmKey ` set dms"
    and dist: "distinct (map fvKey fvs)"
    using inv by (simp_all add: floor_inv_def)
  have "fst ` set (map (\<lambda>fv. (fvKey fv, fvValue fv)) (filter fvDecided fvs)) = fvKey ` {fv \<in> set fvs. fvDecided fv}"
    by force
  also have "\<dots> = fvKey ` {fv \<in> set fvs. agree e rs sc dms (fvKey fv)}"
    using key_entry_decided [OF entry] by blast
  also have "\<dots> = {k \<in> fvKey ` set fvs. agree e rs sc dms k}" by blast
  also have "\<dots> = {k. agree e rs sc dms k}" using agree_mapped [of e rs sc dms] keys by blast
  finally show "fst ` set (map (\<lambda>fv. (fvKey fv, fvValue fv)) (filter fvDecided fvs)) = {k. agree e rs sc dms k}" .
  show "distinct (map fst (map (\<lambda>fv. (fvKey fv, fvValue fv)) (filter fvDecided fvs)))"
    using distinct_map_filter [OF dist, of fvDecided] by (simp add: comp_def)
  show "\<exists>dm \<in> set dms. dmKey dm = k \<and> floor_val e rs sc dm = Some v"
    if "(k, v) \<in> set (map (\<lambda>fv. (fvKey fv, fvValue fv)) (filter fvDecided fvs))"
    using that key_entry_first [OF entry] by auto
qed

end
