(* ===== verification/NodeInputClaims.thy ===== *)
theory NodeInputClaims
  imports NodeInputOk DemoRun
begin

text \<open>
  The properties of a node's input and of the joins that feed it, over the definitions of \<open>NodeInput\<close>.
\<close>

section \<open>Layers\<close>

lemma demo_overlay:
  "\<exists>m. buildNodeInput input_engine reviewed_state reviewed_state (\<lambda>_. Some [incomingFromEdge back_mapped]) ''work'' = Some m \<and>
    map_of m ''goal'' = Some (VString ''again'')"
  by (simp add: input_eval)

lemma demo_forward:
  "\<exists>m. buildNodeInput input_engine reviewed_state reviewed_state (\<lambda>_. Some [incomingFromEdge forward_mapped]) ''work'' = Some m \<and>
    map_of m ''goal'' = Some (VString ''first'') \<and> map_of m ''other'' = None"
  by (simp add: input_eval)

text \<open>C14. The engine's own permission keys never come from a caller: whatever the launch payload, the variables
  and the mappings hold, the input of a node carries under them exactly the rules this node earned, and
  nothing when it earned none.\<close>

theorem permission_keys_engine_owned:
  assumes "buildNodeInput e rs sc incoming nodeID = Some m"
  shows "map_of m GrantInputKey = None \<and>
    map_of m RunGrantsInputKey =
      (if rsPermissionGrants rs nodeID = [] then None
       else Some (VTSlice ''[]string'' (map VString (rsPermissionGrants rs nodeID))))"
proof -
  have "GrantInputKey \<noteq> RunGrantsInputKey" by (simp add: GrantInputKey_def RunGrantsInputKey_def)
  with assms show ?thesis by (auto elim!: buildNodeInput_layers)
qed

theorem permission_keys_engine_owned_witness:
  "\<exists>m. buildNodeInput input_engine reviewed_state reviewed_state (\<lambda>_. None) ''work'' = Some m \<and>
    map_of m RunGrantsInputKey = Some (VTSlice ''[]string'' [VString ''Bash(ls)''])"
proof -
  obtain m where m: "buildNodeInput input_engine reviewed_state reviewed_state (\<lambda>_. None) ''work'' = Some m"
    by (simp add: input_eval)
  from permission_keys_engine_owned [OF m] m show ?thesis by (simp add: reviewed_state_def)
qed

text \<open>C10. When routing recorded which forward edges led into this visit, and the record is one of this workflow, a
  value of the input comes from an edge of the record, from the settled floor or, on the entry node, from
  the launch payload and the defaults: an unselected sibling whose source ran contributes nothing.\<close>

theorem unselected_contribute_nothing:
  assumes "buildNodeInput e rs sc incoming nodeID = Some m" "map_of m k = Some v" "k \<noteq> RunGrantsInputKey"
    and "incoming nodeID = Some selected" "incomingMatchesWorkflow e nodeID selected" "\<not> incomingOnlyBounded selected"
  shows "(\<exists>ed vals. ed \<in> set (wfEdges (eWorkflow e)) \<and> edgeInIncoming ed selected \<and>
      edge_values e rs sc ed = Some vals \<and> (k, v) \<in> set vals) \<or>
    (\<exists>settled refs. settledFloorMappings e rs sc nodeID = Some (settled, refs) \<and> (k, v) \<in> set settled) \<or>
    nodeID = wfEntry (eWorkflow e) \<and> (k, v) \<in> set (entry_values e sc nodeID)"
proof (rule buildNodeInput_layers [OF assms(1)])
  fix settled refs mapped
  assume layers: "settledFloorMappings e rs sc nodeID = Some (settled, refs)"
    "all_some (map (edge_values e rs sc) (contributing e sc incoming nodeID)) = Some mapped"
    "\<And>k. map_of m k = (if k = RunGrantsInputKey then
        (if rsPermissionGrants rs nodeID = [] then None else Some (VTSlice ''[]string'' (map VString (rsPermissionGrants rs nodeID))))
       else if k = GrantInputKey then None else map_of (rev (entry_values e sc nodeID @ settled @ concat mapped)) k)"
  from layers(3) [of k] assms(2, 3) have "map_of (rev (entry_values e sc nodeID @ settled @ concat mapped)) k = Some v"
    by (auto split: if_splits)
  then have "(k, v) \<in> set (rev (entry_values e sc nodeID @ settled @ concat mapped))" by (rule map_of_SomeD)
  then consider "(k, v) \<in> set (entry_values e sc nodeID)" | "(k, v) \<in> set settled" | "(k, v) \<in> set (concat mapped)" by auto
  then show ?thesis
  proof cases
    case 1
    then show ?thesis by (auto simp: entry_values_def split: if_splits)
  next
    case 2
    with layers(1) show ?thesis by blast
  next
    case 3
    with layers(2) obtain ed vals where ed: "ed \<in> set (contributing e sc incoming nodeID)" "edge_values e rs sc ed = Some vals"
      "(k, v) \<in> set vals" by (rule mapped_from_edge)
    then have "edgeInIncoming ed selected" "ed \<in> set (wfEdges (eWorkflow e))"
      using assms(4-6) by (auto simp: contributing_def contributes_def)
    with ed show ?thesis by blast
  qed
qed

theorem unselected_contribute_nothing_witness:
  "\<exists>ed vals. edge_values input_engine reviewed_state reviewed_state ed = Some vals \<and> (''goal'', VString ''first'') \<in> set vals"
proof -
  obtain m where m: "buildNodeInput input_engine reviewed_state reviewed_state (\<lambda>_. Some [incomingFromEdge forward_mapped]) ''work'' = Some m"
    "map_of m ''goal'' = Some (VString ''first'')"
    using demo_forward by blast
  have none: "settledFloorMappings input_engine reviewed_state reviewed_state ''work'' = Some ([], [])"
    "''work'' \<noteq> wfEntry (eWorkflow input_engine)" by (simp_all add: input_eval)
  have sel: "''goal'' \<noteq> RunGrantsInputKey" "incomingMatchesWorkflow input_engine ''work'' [incomingFromEdge forward_mapped]"
    "\<not> incomingOnlyBounded [incomingFromEdge forward_mapped]" by (simp_all add: input_eval)
  from unselected_contribute_nothing [OF m sel(1) refl sel(2, 3)] none show ?thesis by auto
qed

text \<open>C13. A key that a contributing back-edge maps is the back-edge's: on re-entry of a loop's head neither the
  edges that entered it nor the floor nor the launch payload win over the value carried into the iteration,
  in whatever order the edges are declared.\<close>

theorem back_edge_wins:
  assumes "buildNodeInput e rs sc incoming nodeID = Some m" "k \<notin> {RunGrantsInputKey, GrantInputKey}"
    and "ed \<in> set (contributing e sc incoming nodeID)" "IsBoundedIteration ed" "k \<in> dmKey ` set (eWith ed)"
  shows "\<exists>b vals v. b \<in> set (contributing e sc incoming nodeID) \<and> IsBoundedIteration b \<and>
    edge_values e rs sc b = Some vals \<and> (k, v) \<in> set vals \<and> map_of m k = Some v"
proof (rule buildNodeInput_layers [OF assms(1)])
  fix settled refs mapped
  assume layers: "all_some (map (edge_values e rs sc) (contributing e sc incoming nodeID)) = Some mapped"
    "\<And>k. map_of m k = (if k = RunGrantsInputKey then
        (if rsPermissionGrants rs nodeID = [] then None else Some (VTSlice ''[]string'' (map VString (rsPermissionGrants rs nodeID))))
       else if k = GrantInputKey then None else map_of (rev (entry_values e sc nodeID @ settled @ concat mapped)) k)"
  let ?adm = "contributes e sc incoming nodeID"
  let ?fwd = "filter ?adm (filter (\<lambda>ed. \<not> IsBoundedIteration ed) (wfEdges (eWorkflow e)))"
  let ?loops = "filter ?adm (filter IsBoundedIteration (wfEdges (eWorkflow e)))"
  from layers(1) obtain fwd backs where split: "mapped = fwd @ backs" "all_some (map (edge_values e rs sc) ?loops) = Some backs"
    using all_some_append [of "map (edge_values e rs sc) ?fwd" "map (edge_values e rs sc) ?loops" mapped]
    by (auto simp: contributing_def)
  have "ed \<in> set ?loops" using assms(3, 4) by (auto simp: contributing_def)
  then obtain vals where vals: "edge_values e rs sc ed = Some vals" "vals \<in> set backs"
    using all_some_image [OF split(2)] by blast
  have "k \<in> fst ` set vals" using vals(1) assms(5) by (rule edge_values_keys)
  then have "k \<in> fst ` set (rev (concat backs))" using vals(2) by force
  then obtain v where v: "map_of (rev (concat backs)) k = Some v"
    by (metis map_of_eq_None_iff not_Some_eq)
  then have "map_of m k = Some v" using layers(2) [of k] assms(2) split(1) by (simp add: map_add_def)
  moreover from v have "(k, v) \<in> set (concat backs)" by (auto dest: map_of_SomeD)
  with split(2) obtain b bvals where "b \<in> set ?loops" "edge_values e rs sc b = Some bvals" "(k, v) \<in> set bvals"
    by (rule mapped_from_edge)
  ultimately show ?thesis by (auto simp: contributing_def)
qed

theorem back_edge_wins_witness:
  "\<exists>m. buildNodeInput input_engine reviewed_state reviewed_state (\<lambda>_. Some [incomingFromEdge back_mapped]) ''work'' = Some m \<and>
    (\<exists>b v. IsBoundedIteration b \<and> map_of m ''goal'' = Some v \<and> v = VString ''again'')"
proof -
  obtain m where m: "buildNodeInput input_engine reviewed_state reviewed_state (\<lambda>_. Some [incomingFromEdge back_mapped]) ''work'' = Some m"
    "map_of m ''goal'' = Some (VString ''again'')"
    using demo_overlay by blast
  have "back_mapped \<in> set (contributing input_engine reviewed_state (\<lambda>_. Some [incomingFromEdge back_mapped]) ''work'')"
    "IsBoundedIteration back_mapped" "''goal'' \<in> dmKey ` set (eWith back_mapped)" "''goal'' \<notin> {RunGrantsInputKey, GrantInputKey}"
    by (simp_all add: input_eval)
  from back_edge_wins [OF m(1) this(4) this(1) this(2) this(3)] m show ?thesis by auto
qed

section \<open>Templates\<close>

text \<open>C39. The blocks found in a template lie in order, apart, each from an opening to a closing fence, and splicing
  every block back into its own place gives the template: interpolation replaces the blocks and keeps every
  other byte.\<close>

theorem template_roundtrip:
  "blocks_ok raw 0 (templateSpans raw) \<and>
   splice raw 0 (templateSpans raw) (map (\<lambda>(a, b). take (b - a) (drop a raw)) (templateSpans raw)) = raw"
  using spans_from_ok [of 0 raw] splice_blocks [of raw 0 "templateSpans raw"] by (simp add: templateSpans_def)

section \<open>Joins\<close>

text \<open>C5. The floor of a join holds exactly the forward edges into it whose source did not run and can be reached
  from a started node along edges that routing took out of the nodes that ran and any edge out of those that
  did not, never through the join: a route that routing rejected is not resurrected.\<close>

theorem settled_edges_exact:
  assumes "join \<noteq> []"
  shows "set (settledEdgesInto e seeds join ev) =
    {incomingFromEdge ed | ed s. ed \<in> set (wfEdges (eWorkflow e)) \<and> eTo ed = join \<and> \<not> IsBoundedIteration ed \<and>
       eFrom ed \<noteq> [] \<and> eFrom ed \<notin> set (evRan ev) \<and> s \<in> set seeds \<and> s \<noteq> [] \<and>
       (s, eFrom ed) \<in> (walk_step (wfEdges (eWorkflow e)) ev join)\<^sup>*}"
  by (rule settledEdgesInto_set [OF assms])

theorem settled_edges_exact_witness:
  "incomingFromEdge (bare_edge ''item'' ''done'') \<in> set (settledEdgesInto demo_engine [''review''] ''done'' (evidenceFromBranches []))"
proof -
  have "(''review'', ''item'') \<in> walk_step (wfEdges (eWorkflow demo_engine)) (evidenceFromBranches []) ''done''"
    by (simp add: walk_step_def walked_def evidenceFromBranches_def IsBoundedIteration_def demo_defs)
  then have "(''review'', eFrom (bare_edge ''item'' ''done'')) \<in> (walk_step (wfEdges (eWorkflow demo_engine)) (evidenceFromBranches []) ''done'')\<^sup>*"
    by (simp add: bare_edge_def)
  moreover have "bare_edge ''item'' ''done'' \<in> set (wfEdges (eWorkflow demo_engine))" by (simp add: demo_engine_def demo_workflow_def)
  moreover have "eTo (bare_edge ''item'' ''done'') = ''done''" "eFrom (bare_edge ''item'' ''done'') \<noteq> []"
    "\<not> IsBoundedIteration (bare_edge ''item'' ''done'')" "eFrom (bare_edge ''item'' ''done'') \<notin> set (evRan (evidenceFromBranches []))"
    by (simp_all add: bare_edge_def IsBoundedIteration_def evidenceFromBranches_def)
  moreover have "''done'' \<noteq> []" "''review'' \<in> set [''review'']" "''review'' \<noteq> []" by simp_all
  ultimately show ?thesis
    using settled_edges_exact [of "''done''" demo_engine "[''review'']" "evidenceFromBranches []"] by blast
qed

text \<open>C15. Joining a fan-out records at the join each edge that a successful branch selected into it, once, in
  whatever order the branches ended, records nothing when there is none, and leaves the record of every other
  node alone.\<close>

theorem join_records_union:
  assumes "join \<noteq> []"
  shows "(case rsIncoming (mergeJoinIncoming join results flr rs) join of
      None \<Rightarrow> \<forall>r \<in> set results. brFailed r \<or> recorded r join = []
    | Some edges \<Rightarrow> edges \<noteq> [] \<and> distinct edges \<and> set edges = (\<Union>r \<in> {r \<in> set results. \<not> brFailed r}. set (recorded r join))) \<and>
    (\<forall>nodeID. nodeID \<noteq> join \<longrightarrow> rsIncoming (mergeJoinIncoming join results flr rs) nodeID = rsIncoming rs nodeID)"
proof -
  let ?all = "concat (map (\<lambda>r. if brFailed r then [] else recorded r join) results)"
  have union: "set (firsts [] ?all) = (\<Union>r \<in> {r \<in> set results. \<not> brFailed r}. set (recorded r join))"
    by (auto simp: set_firsts split: if_splits)
  have merged: "rsIncoming (mergeJoinIncoming join results flr rs) =
      (rsIncoming rs)(join := if firsts [] ?all = [] then None else Some (firsts [] ?all))"
    using assms by (simp add: mergeJoinIncoming_def Let_def setSettledFloor_def)
  show ?thesis
  proof (cases "firsts [] ?all = []")
    case True
    with union have "\<forall>r \<in> set results. brFailed r \<or> recorded r join = []" by auto
    with True merged show ?thesis by simp
  next
    case False
    with union merged distinct_firsts [of "[]" ?all] show ?thesis by simp
  qed
qed

definition branch_of :: "string \<Rightarrow> bool \<Rightarrow> edge \<Rightarrow> branch_result" where
  "branch_of name failed ed = \<lparr>brID = name, brStart = eFrom ed, brOutputs = [], brFailed = failed,
     brIncoming = (\<lambda>nodeID. if nodeID = eTo ed then Some [incomingFromEdge ed] else None)\<rparr>"

definition two_branches :: "branch_result list" where
  "two_branches = [branch_of ''a'' True (bare_edge ''x'' ''done''), branch_of ''b'' False (bare_edge ''y'' ''done'')]"

theorem join_records_union_witness:
  "case rsIncoming (mergeJoinIncoming ''done'' two_branches [] demo_state) ''done'' of
     None \<Rightarrow> False
   | Some edges \<Rightarrow> set edges = {incomingFromEdge (bare_edge ''y'' ''done'')}"
proof -
  have rec: "(\<Union>r \<in> {r \<in> set two_branches. \<not> brFailed r}. set (recorded r ''done'')) = {incomingFromEdge (bare_edge ''y'' ''done'')}"
  proof -
    have "{r \<in> set two_branches. \<not> brFailed r} = {branch_of ''b'' False (bare_edge ''y'' ''done'')}"
      by (auto simp: two_branches_def) (simp_all add: branch_of_def)
    moreover have "recorded (branch_of ''b'' False (bare_edge ''y'' ''done'')) ''done'' = [incomingFromEdge (bare_edge ''y'' ''done'')]"
      by (simp add: recorded_def branch_of_def) (simp add: bare_edge_def)
    ultimately show ?thesis by simp
  qed
  have some: "\<not> (\<forall>r \<in> set two_branches. brFailed r \<or> recorded r ''done'' = [])"
    by (simp add: two_branches_def branch_of_def recorded_def bare_edge_def)
  have "''done'' \<noteq> []" by simp
  note union = conjunct1 [OF join_records_union [OF this, of two_branches "[]" demo_state]]
  show ?thesis
  proof (cases "rsIncoming (mergeJoinIncoming ''done'' two_branches [] demo_state) ''done''")
    case None
    with union some show ?thesis by simp
  next
    case (Some edges)
    with union have "set edges = (\<Union>r \<in> {r \<in> set two_branches. \<not> brFailed r}. set (recorded r ''done''))" by simp
    with Some rec show ?thesis by simp
  qed
qed

text \<open>C19. The floor gives a key a value exactly when every mapping of the key on its edges is the first one's
  template or resolves to a value deeply equal to it; a key on which they disagree is left unset.\<close>

theorem floor_gives_agreed_keys:
  assumes "settledFloorMappings e rs sc nodeID = Some (settled, refs)"
  shows "fst ` set settled = {k. agree e rs sc (concat (map eWith (floor_edges e rs nodeID))) k} \<and> distinct (map fst settled) \<and>
    (\<forall>(k, v) \<in> set settled. \<exists>dm \<in> set (concat (map eWith (floor_edges e rs nodeID))). dmKey dm = k \<and> floor_val e rs sc dm = Some v)"
proof -
  let ?dms = "concat (map eWith (floor_edges e rs nodeID))"
  from assms obtain fvs where fvs: "fold (floor_step e rs sc) ?dms (Some []) = Some fvs"
    "settled = map (\<lambda>fv. (fvKey fv, fvValue fv)) (filter fvDecided fvs)"
    by (auto simp: settledFloorMappings_def)
  have "floor_inv e rs sc ?dms fvs" using floor_inv_fold [OF floor_inv_start fvs(1)] by simp
  from floor_inv_settled [OF this] fvs(2) show ?thesis by blast
qed

definition floored_state :: run_state where
  "floored_state = reviewed_state\<lparr>rsSettled := (\<lambda>_. Some [incomingFromEdge forward_mapped])\<rparr>"

theorem floor_gives_agreed_keys_witness:
  "\<exists>settled refs. settledFloorMappings input_engine floored_state floored_state ''work'' = Some (settled, refs) \<and>
    distinct (map fst settled) \<and> fst ` set settled = {''goal''}"
proof -
  have f: "settledFloorMappings input_engine floored_state floored_state ''work'' = Some ([(''goal'', VString ''first'')], [])"
    by (simp add: input_eval floored_state_def floor_step_def List.map_filter_simps)
  from floor_gives_agreed_keys [OF f] f show ?thesis by auto
qed

end
