(* ===== verification/Spec2Isabelle.thy ===== *)
theory Spec2Isabelle
  imports ExprClaims BudgetClaims RoutingClaims NodeInputClaims
begin

text \<open>
  Verification library of iterion, a workflow engine in Go (\<open>src/pkg\<close>).
\<close>

end
